theory Spec2Isabelle
  imports Main "HOL-Library.Multiset"
begin

section \<open>A Wordle advisor: feedback labels, hint pruning, scoring and ranking\<close>

text \<open>
  The repository has two scripts. wordle\_exact.py computes the label a guess receives
  against a target (\<open>get_label\<close>), keeps the list of hints, prunes its word pools with
  them and scores a guess by the sizes of the classes of answers with equal labels.
  wordle.py filters its answer set letter by letter and scores with letter statistics.
  Exceptions are values: a function that can raise returns \<open>error + 'a\<close>, and a method
  that can raise after it has changed the object returns the exception, if any, together
  with the state of the object. Reading the word files is outside the model.
\<close>

subsection \<open>Feedback labels (wordle\_exact.py, \<open>get_label\<close>)\<close>


datatype error = AssertionError | IndexError | KeyError | NameError

fun counter_add :: "'a \<Rightarrow> ('a \<times> int) list \<Rightarrow> ('a \<times> int) list" where
  "counter_add k [] = [(k, 1)]"
| "counter_add k ((k', n) # m) =
     (if k = k' then (k', n + 1) # m else (k', n) # counter_add k m)"

definition Counter :: "'a list \<Rightarrow> ('a \<times> int) list" where
  "Counter xs = foldl (\<lambda>m k. counter_add k m) [] xs"

definition dict_get :: "('k \<rightharpoonup> int) \<Rightarrow> 'k \<Rightarrow> int \<Rightarrow> int" where
  "dict_get m k d = (case m k of None \<Rightarrow> d | Some v \<Rightarrow> v)"

definition dict_dec :: "('k \<rightharpoonup> int) \<Rightarrow> 'k \<Rightarrow> error + ('k \<rightharpoonup> int)" where
  "dict_dec m k = (case m k of None \<Rightarrow> Inl KeyError | Some v \<Rightarrow> Inr (m(k \<mapsto> v - 1)))"

fun first_pass :: "string \<Rightarrow> nat \<Rightarrow> string \<Rightarrow> string \<Rightarrow> (char \<rightharpoonup> int)
    \<Rightarrow> error + (string \<times> (char \<rightharpoonup> int))" where
  "first_pass target pos [] ans char_counts = Inr (ans, char_counts)"
| "first_pass target pos (c # cs) ans char_counts =
     (if length target \<le> pos then Inl IndexError
      else if target ! pos = c then
        (case dict_dec char_counts c of
           Inl e \<Rightarrow> Inl e
         | Inr char_counts' \<Rightarrow> first_pass target (Suc pos) cs (ans[pos := CHR ''2'']) char_counts')
      else first_pass target (Suc pos) cs ans char_counts)"

fun second_pass :: "nat \<Rightarrow> string \<Rightarrow> string \<Rightarrow> (char \<rightharpoonup> int)
    \<Rightarrow> error + (string \<times> (char \<rightharpoonup> int))" where
  "second_pass pos [] ans char_counts = Inr (ans, char_counts)"
| "second_pass pos (c # cs) ans char_counts =
     (if length ans \<le> pos then Inl IndexError
      else if ans ! pos \<noteq> CHR ''2'' \<and> dict_get char_counts c 0 > 0 then
        (case dict_dec char_counts c of
           Inl e \<Rightarrow> Inl e
         | Inr char_counts' \<Rightarrow> second_pass (Suc pos) cs (ans[pos := CHR ''1'']) char_counts')
      else second_pass (Suc pos) cs ans char_counts)"

definition get_label :: "string \<Rightarrow> string \<Rightarrow> error + string" where
  "get_label word target =
     (case first_pass target 0 word (replicate (length word) CHR ''0'') (map_of (Counter target)) of
        Inl e \<Rightarrow> Inl e
      | Inr (ans, char_counts) \<Rightarrow>
          (case second_pass 0 word ans char_counts of
             Inl e \<Rightarrow> Inl e
           | Inr (ans', char_counts') \<Rightarrow> Inr ans'))"


text \<open>
  The number of positions of \<open>word\<close> that hold the letter \<open>c\<close> and are labelled
  \<open>1\<close> or \<open>2\<close> in \<open>ans\<close>; \<open>mset_idx\<close> is the set of these positions.
\<close>

definition marks :: "char \<Rightarrow> string \<Rightarrow> string \<Rightarrow> nat" where
  "marks c word ans =
     length (filter (\<lambda>(x, l). x = c \<and> (l = CHR ''1'' \<or> l = CHR ''2'')) (zip word ans))"

definition mset_idx :: "char \<Rightarrow> string \<Rightarrow> string \<Rightarrow> nat set" where
  "mset_idx c word ans = {i. i < length word \<and> word ! i = c \<and> (ans ! i = CHR ''1'' \<or> ans ! i = CHR ''2'')}"


subsection \<open>The exact session (wordle\_exact.py)\<close>

text \<open>
  The session object holds the word length, the chronological list of hints and the
  dictionary \<open>words\<close> from a pool name to the two-element list
  \<open>[original list, pruned list]\<close>. The dictionary is iterated in insertion order by
  \<open>add_word_hint\<close>, so it is an association list.
\<close>

type_synonym hint = "string \<times> string"

record exact_state =
  xlen :: nat
  hints :: "hint list"
  words :: "(string \<times> (string list \<times> string list)) list"

text \<open>
  Two names of the module are not always bound. \<open>read_words\<close> is defined inside the
  class body and called by \<open>read_initial_words\<close> as a global name, which the module never
  binds: the first pool of \<open>words_data_files\<close> raises \<open>NameError\<close>, before any file is
  read and before anything is stored in \<open>self.words\<close>. So the constructor returns an
  object for the empty dictionary only; a session with pools exists when its client
  fills \<open>words\<close> itself. \<open>logger\<close> is bound by the \<open>__main__\<close> block only: the methods
  that log take \<open>logger_bound\<close>, and raise \<open>NameError\<close> at their logging line when it is
  false.
\<close>

fun read_initial_words :: "(string \<times> string) list \<Rightarrow> exact_state \<Rightarrow> error option \<times> exact_state" where
  "read_initial_words [] s = (None, s)"
| "read_initial_words ((word_type, fname) # rest) s = (Some NameError, s)"

definition exact_init :: "nat \<Rightarrow> (string \<times> string) list \<Rightarrow> error + exact_state" where
  "exact_init n words_data_files =
     (case read_initial_words words_data_files \<lparr>xlen = n, hints = [], words = []\<rparr> of
        (Some e, s) \<Rightarrow> Inl e
      | (None, s) \<Rightarrow> Inr s)"

text \<open>
  \<open>all(self.get_label(hword, word) == hlabel for hword, hlabel in self.hints)\<close>:
  the generator is consumed left to right and stops at the first false comparison; an
  exception of \<open>get_label\<close> leaves through it.
\<close>

fun all_hints :: "hint list \<Rightarrow> string \<Rightarrow> error + bool" where
  "all_hints [] word = Inr True"
| "all_hints ((hword, hlabel) # hs) word =
     (case get_label hword word of
        Inl e \<Rightarrow> Inl e
      | Inr l \<Rightarrow> if l = hlabel then all_hints hs word else Inr False)"

text \<open>The list comprehension of \<open>prune_words\<close>.\<close>

fun kept_words :: "hint list \<Rightarrow> string list \<Rightarrow> error + string list" where
  "kept_words hs [] = Inr []"
| "kept_words hs (word # ws) =
     (case all_hints hs word of
        Inl e \<Rightarrow> Inl e
      | Inr keep \<Rightarrow>
          (case kept_words hs ws of
             Inl e \<Rightarrow> Inl e
           | Inr pruned_words \<Rightarrow> Inr (if keep then word # pruned_words else pruned_words)))"

text \<open>\<open>prune_words\<close> builds the list, logs the two lengths and returns the list.\<close>

definition prune_words :: "bool \<Rightarrow> hint list \<Rightarrow> string list \<Rightarrow> error + string list" where
  "prune_words logger_bound hs ws =
     (case kept_words hs ws of
        Inl e \<Rightarrow> Inl e
      | Inr pruned_words \<Rightarrow> if logger_bound then Inr pruned_words else Inl NameError)"

text \<open>
  The loop of \<open>add_word_hint\<close> over \<open>self.words.items()\<close>: for every pool it logs the
  pool's name and replaces the pruned list. When a pool raises, the pools before it are
  already pruned and the others are as they were.
\<close>

fun prune_pools :: "bool \<Rightarrow> hint list \<Rightarrow> (string \<times> (string list \<times> string list)) list
    \<Rightarrow> error option \<times> (string \<times> (string list \<times> string list)) list" where
  "prune_pools logger_bound hs [] = (None, [])"
| "prune_pools logger_bound hs ((word_type, (orig, pruned)) # rest) =
     (if \<not> logger_bound then (Some NameError, (word_type, (orig, pruned)) # rest)
      else
        (case prune_words logger_bound hs pruned of
           Inl e \<Rightarrow> (Some e, (word_type, (orig, pruned)) # rest)
         | Inr pruned' \<Rightarrow>
             (case prune_pools logger_bound hs rest of
                (err, rest') \<Rightarrow> (err, (word_type, (orig, pruned')) # rest'))))"

text \<open>
  \<open>add_word_hint\<close> appends the hint first and prunes afterwards. The result is the
  exception raised, if any, and the state of the object at that moment.
\<close>

definition exact_add_word_hint :: "bool \<Rightarrow> string \<Rightarrow> string \<Rightarrow> exact_state
    \<Rightarrow> error option \<times> exact_state" where
  "exact_add_word_hint logger_bound word label s =
     (let s1 = s\<lparr>hints := hints s @ [(word, label)]\<rparr> in
      case prune_pools logger_bound (hints s1) (words s1) of
        (err, ws) \<Rightarrow> (err, s1\<lparr>words := ws\<rparr>))"

text \<open>A session: the calls are made one after the other and stop at the first exception.\<close>

fun exact_add_hints :: "bool \<Rightarrow> hint list \<Rightarrow> exact_state \<Rightarrow> error option \<times> exact_state" where
  "exact_add_hints logger_bound [] s = (None, s)"
| "exact_add_hints logger_bound ((word, label) # hs) s =
     (case exact_add_word_hint logger_bound word label s of
        (Some e, s') \<Rightarrow> (Some e, s')
      | (None, s') \<Rightarrow> exact_add_hints logger_bound hs s')"

text \<open>\<open>[self.get_label(word, w) for w in self.words[anstype][1]]\<close>\<close>

fun labels_of :: "string \<Rightarrow> string list \<Rightarrow> error + string list" where
  "labels_of word [] = Inr []"
| "labels_of word (w # ws) =
     (case get_label word w of
        Inl e \<Rightarrow> Inl e
      | Inr l \<Rightarrow> (case labels_of word ws of Inl e \<Rightarrow> Inl e | Inr ls \<Rightarrow> Inr (l # ls)))"

text \<open>
  The partition sizes become a numpy array of 64-bit signed integers; squaring and summing
  wrap around silently.
\<close>

definition wrap64 :: "int \<Rightarrow> int" where
  "wrap64 x = (x + 2 ^ 63) mod 2 ^ 64 - 2 ^ 63"

definition np_square_sum :: "int list \<Rightarrow> int" where
  "np_square_sum ns = foldl (\<lambda>acc n. wrap64 (acc + n)) 0 (map (\<lambda>n. wrap64 (n * n)) ns)"

definition get_score :: "string \<Rightarrow> string \<Rightarrow> exact_state \<Rightarrow> error + int" where
  "get_score word anstype s =
     (case map_of (words s) anstype of
        None \<Rightarrow> Inl KeyError
      | Some (orig, pruned) \<Rightarrow>
          (case labels_of word pruned of
             Inl e \<Rightarrow> Inl e
           | Inr labels \<Rightarrow> Inr (np_square_sum (map snd (Counter labels)))))"

fun scores_of :: "string list \<Rightarrow> string \<Rightarrow> exact_state \<Rightarrow> error + int list" where
  "scores_of [] anstype s = Inr []"
| "scores_of (word # ws) anstype s =
     (case get_score word anstype s of
        Inl e \<Rightarrow> Inl e
      | Inr sc \<Rightarrow> (case scores_of ws anstype s of Inl e \<Rightarrow> Inl e | Inr scs \<Rightarrow> Inr (sc # scs)))"

subsection \<open>Ranking\<close>

text \<open>The slice \<open>xs[:K]\<close>: a negative \<open>K\<close> counts from the end.\<close>

definition slice_to :: "int \<Rightarrow> 'a list \<Rightarrow> 'a list" where
  "slice_to K xs = (if 0 \<le> K then take (nat K) xs else take (nat (int (length xs) + K)) xs)"

text \<open>
  \<open>np.argsort\<close> belongs to numpy, not to this repository: it is a parameter. What the
  ranking needs of it is that it returns the indices of its argument in an order that
  makes the scores non-decreasing.
\<close>

definition sorts :: "('a::linorder list \<Rightarrow> nat list) \<Rightarrow> 'a list \<Rightarrow> bool" where
  "sorts argsort scores \<longleftrightarrow>
     mset (argsort scores) = mset [0..<length scores] \<and>
     sorted (map (\<lambda>i. scores ! i) (argsort scores))"

text \<open>
  The printing loops of the two \<open>predict\<close> methods; a printed line is a pair of word and
  score. wordle.py walks the reversed order (highest score first), wordle\_exact.py the
  order itself (lowest score first).
\<close>

definition rank_desc :: "('a::linorder list \<Rightarrow> nat list) \<Rightarrow> string list \<Rightarrow> 'a list \<Rightarrow> int
    \<Rightarrow> (string \<times> 'a) list" where
  "rank_desc argsort ws scores K =
     map (\<lambda>idx. (ws ! idx, scores ! idx)) (slice_to K (rev (argsort scores)))"

definition rank_asc :: "('a::linorder list \<Rightarrow> nat list) \<Rightarrow> string list \<Rightarrow> 'a list \<Rightarrow> int
    \<Rightarrow> (string \<times> 'a) list" where
  "rank_asc argsort ws scores K =
     map (\<lambda>idx. (ws ! idx, scores ! idx)) (slice_to K (argsort scores))"

definition exact_predict :: "(int list \<Rightarrow> nat list) \<Rightarrow> int \<Rightarrow> string \<Rightarrow> string \<Rightarrow> bool
    \<Rightarrow> exact_state \<Rightarrow> error + (string \<times> int) list" where
  "exact_predict argsort K searchtype anstype pruned s =
     (case map_of (words s) searchtype of
        None \<Rightarrow> Inl KeyError
      | Some (orig, pr) \<Rightarrow>
          (let ws = (if pruned then pr else orig) in
           case scores_of ws anstype s of
             Inl e \<Rightarrow> Inl e
           | Inr scores \<Rightarrow> Inr (rank_asc argsort ws scores K)))"

text \<open>
  An argsort that keeps equal scores in index order, as numpy's default sort does on the
  short arrays it sorts by insertion.
\<close>

definition stable_argsort :: "'a::linorder list \<Rightarrow> nat list" where
  "stable_argsort scores = sort_key (\<lambda>i. scores ! i) [0..<length scores]"

subsection \<open>The heuristic session (wordle.py)\<close>

text \<open>
  The object holds the two word sets and the statistics derived from the answer set.
  Every word of a pool has length \<open>_len\<close> (\<open>read_words\<close> keeps no other line), so the
  position of a letter of an answer word is always a key of its position table.
\<close>

record wordle_state =
  wlen :: nat
  allowed_words :: "string set"
  answer_words :: "string set"
  num_allowed_words :: nat
  num_answer_words :: nat
  chars :: "char set"
  char_pos_counts :: "char \<rightharpoonup> (nat \<rightharpoonup> int)"
  char_in_counts :: "char \<rightharpoonup> int"
  char_notin_counts :: "char \<rightharpoonup> int"

definition update_chars :: "wordle_state \<Rightarrow> wordle_state" where
  "update_chars s = s\<lparr>chars := (\<Union>word\<in>answer_words s. set word)\<rparr>"

definition update_counts :: "wordle_state \<Rightarrow> wordle_state" where
  "update_counts s = s\<lparr>
     char_pos_counts := (\<lambda>char. if char \<in> chars s
        then Some (\<lambda>pos. if pos < wlen s
               then Some (int (card {word \<in> answer_words s. pos < length word \<and> word ! pos = char}))
               else None)
        else None),
     char_in_counts := (\<lambda>char. if char \<in> chars s
        then Some (int (card {word \<in> answer_words s. char \<in> set word})) else None),
     char_notin_counts := (\<lambda>char. if char \<in> chars s
        then Some (int (card {word \<in> answer_words s. char \<notin> set word})) else None)\<rparr>"

definition wordle_init :: "nat \<Rightarrow> string set \<Rightarrow> string set \<Rightarrow> wordle_state" where
  "wordle_init n allowed answers =
     update_counts (update_chars
       \<lparr>wlen = n, allowed_words = allowed, answer_words = answers,
        num_allowed_words = card allowed, num_answer_words = card answers,
        chars = {}, char_pos_counts = Map.empty, char_in_counts = Map.empty,
        char_notin_counts = Map.empty\<rparr>)"

text \<open>
  The body of the loop of \<open>add_char_hint\<close> for one answer word: whether the word is
  added to the new set. \<open>word[pos]\<close> raises when the word is too short.
\<close>

definition keep_word :: "char \<Rightarrow> char \<Rightarrow> nat \<Rightarrow> string \<Rightarrow> error + bool" where
  "keep_word char label pos word =
     (let charinword = (char \<in> set word) in
      if label = CHR ''0'' then Inr (\<not> charinword)
      else if label = CHR ''1'' then
        (if \<not> charinword then Inr False
         else if length word \<le> pos then Inl IndexError
         else Inr (word ! pos \<noteq> char))
      else if label = CHR ''2'' then
        (if \<not> charinword then Inr False
         else if length word \<le> pos then Inl IndexError
         else Inr (word ! pos = char))
      else Inr True)"

definition add_char_hint :: "char \<Rightarrow> char \<Rightarrow> nat \<Rightarrow> wordle_state \<Rightarrow> error option \<times> wordle_state" where
  "add_char_hint char label pos s =
     (if \<exists>word\<in>answer_words s. keep_word char label pos word = Inl IndexError
      then (Some IndexError, s)
      else
        (let ws = {word \<in> answer_words s. keep_word char label pos word = Inr True} in
         (None, update_counts (update_chars
                  (s\<lparr>answer_words := ws, num_answer_words := card ws\<rparr>)))))"

fun add_char_hints :: "nat \<Rightarrow> (char \<times> char) list \<Rightarrow> wordle_state \<Rightarrow> error option \<times> wordle_state" where
  "add_char_hints pos [] s = (None, s)"
| "add_char_hints pos ((char, label) # rest) s =
     (case add_char_hint char label pos s of
        (Some e, s') \<Rightarrow> (Some e, s')
      | (None, s') \<Rightarrow> add_char_hints (Suc pos) rest s')"

definition wordle_add_word_hint :: "string \<Rightarrow> string \<Rightarrow> wordle_state \<Rightarrow> error option \<times> wordle_state" where
  "wordle_add_word_hint word label s =
     (if \<exists>char\<in>set label. char \<notin> {CHR ''0'', CHR ''1'', CHR ''2''} then (Some AssertionError, s)
      else if length word \<noteq> length label then (Some AssertionError, s)
      else add_char_hints 0 (zip word label) s)"


fun wordle_add_hints :: "hint list \<Rightarrow> wordle_state \<Rightarrow> error option \<times> wordle_state" where
  "wordle_add_hints [] s = (None, s)"
| "wordle_add_hints ((word, label) # hs) s =
     (case wordle_add_word_hint word label s of
        (Some e, s') \<Rightarrow> (Some e, s')
      | (None, s') \<Rightarrow> wordle_add_hints hs s')"

section \<open>Properties of the labels\<close>

lemma map_of_counter_add:
  "map_of (counter_add k m) =
     (map_of m)(k \<mapsto> (case map_of m k of None \<Rightarrow> 1 | Some n \<Rightarrow> n + 1))"
  by (induction m) (auto simp: fun_eq_iff)

lemma map_of_foldl_counter_add:
  "map_of (foldl (\<lambda>m k. counter_add k m) m xs) c =
     (if c \<in> set xs then Some (dict_get (map_of m) c 0 + int (count_list xs c))
      else map_of m c)"
proof (induction xs arbitrary: m)
  case Nil
  then show ?case by simp
next
  case (Cons x xs)
  show ?case
    by (simp add: Cons.IH map_of_counter_add dict_get_def split: option.splits)
qed

lemma map_of_Counter:
  "map_of (Counter xs) c = (if c \<in> set xs then Some (int (count_list xs c)) else None)"
  by (simp add: Counter_def map_of_foldl_counter_add dict_get_def)

lemma dict_get_Counter: "dict_get (map_of (Counter xs)) c 0 = int (count_list xs c)"
  by (simp add: dict_get_def map_of_Counter count_list_0_iff)

lemma marks_card: "length ans = length word \<Longrightarrow> marks c word ans = card (mset_idx c word ans)"
  unfolding marks_def mset_idx_def length_filter_conv_card
  by (rule arg_cong[where f=card]) auto

lemma finite_mset_idx: "finite (mset_idx c word ans)"
  by (simp add: mset_idx_def)

lemma mset_idx_update:
  assumes "pos < length word" "length ans = length word" "ans ! pos = CHR ''0''"
    and "v = CHR ''1'' \<or> v = CHR ''2''"
  shows "card (mset_idx c word (ans[pos := v])) =
         card (mset_idx c word ans) + (if word ! pos = c then 1 else 0)"
proof (cases "word ! pos = c")
  case True
  have "mset_idx c word (ans[pos := v]) = insert pos (mset_idx c word ans)"
    using assms True by (auto simp: mset_idx_def nth_list_update)
  moreover have "pos \<notin> mset_idx c word ans"
    using assms by (simp add: mset_idx_def)
  ultimately show ?thesis using True by (simp add: finite_mset_idx)
next
  case False
  have "mset_idx c word (ans[pos := v]) = mset_idx c word ans"
    using assms False by (auto simp: mset_idx_def nth_list_update)
  then show ?thesis using False by simp
qed

lemma count_list_drop:
  "pos < length xs \<Longrightarrow>
   count_list (drop pos xs) c = (if xs ! pos = c then 1 else 0) + count_list (drop (Suc pos) xs) c"
  by (simp flip: Cons_nth_drop_Suc)

lemma dict_dec_pos:
  "0 < dict_get m k 0 \<Longrightarrow> dict_dec m k = Inr (m(k \<mapsto> dict_get m k 0 - 1))"
  by (auto simp: dict_get_def dict_dec_def split: option.splits)

lemma dict_get_upd: "dict_get (m(k \<mapsto> v)) k' d = (if k' = k then v else dict_get m k' d)"
  by (simp add: dict_get_def)

lemma first_pass_ok:
  assumes "drop pos word = cs" "length word \<le> length target" "length ans = length word"
    and "\<forall>c. int (count_list (drop pos target) c) \<le> dict_get cc c 0"
    and "\<forall>i. pos \<le> i \<and> i < length word \<longrightarrow> ans ! i = CHR ''0''"
  shows "\<exists>ans' cc'. first_pass target pos cs ans cc = Inr (ans', cc') \<and>
           length ans' = length word \<and>
           (\<forall>i<length word. ans' ! i =
               (if pos \<le> i \<and> word ! i = target ! i then CHR ''2'' else ans ! i)) \<and>
           (\<forall>c. 0 \<le> dict_get cc' c 0) \<and>
           (\<forall>c. int (card (mset_idx c word ans')) + dict_get cc' c 0 =
                int (card (mset_idx c word ans)) + dict_get cc c 0)"
  using assms
proof (induction cs arbitrary: pos ans cc)
  case Nil
  then have "length word \<le> pos" by simp
  moreover have "\<forall>c. 0 \<le> dict_get cc c 0"
  proof
    fix c
    have "0 \<le> int (count_list (drop pos target) c)" by simp
    also have "\<dots> \<le> dict_get cc c 0" using Nil.prems(4) by blast
    finally show "0 \<le> dict_get cc c 0" .
  qed
  ultimately show ?case using Nil by auto
next
  case (Cons c cs)
  from Cons.prems(1) have pos: "pos < length word"
    by (metis drop_all list.distinct(1) not_less)
  from Cons.prems(1) have c: "word ! pos = c" and rest: "drop (Suc pos) word = cs"
    using pos by (metis Cons_nth_drop_Suc list.inject)+
  from pos Cons.prems(2) have post: "pos < length target" by simp
  show ?case
  proof (cases "target ! pos = c")
    case True
    have "1 \<le> int (count_list (drop pos target) c)"
      using post True by (simp add: count_list_drop)
    then have gpos: "0 < dict_get cc c 0"
      using Cons.prems(4) by (metis int_one_le_iff_zero_less less_le_trans not_less zero_less_one order.strict_trans2)
    let ?cc = "cc(c \<mapsto> dict_get cc c 0 - 1)"
    let ?ans = "ans[pos := CHR ''2'']"
    have step: "first_pass target pos (c # cs) ans cc = first_pass target (Suc pos) cs ?ans ?cc"
      using post True gpos by (simp add: dict_dec_pos)
    have inv: "\<forall>c'. int (count_list (drop (Suc pos) target) c') \<le> dict_get ?cc c' 0"
    proof
      fix c'
      have "int (count_list (drop pos target) c') \<le> dict_get cc c' 0"
        using Cons.prems(4) by blast
      then show "int (count_list (drop (Suc pos) target) c') \<le> dict_get ?cc c' 0"
        using post True by (auto simp: count_list_drop dict_get_upd)
    qed
    have zeros: "\<forall>i. Suc pos \<le> i \<and> i < length word \<longrightarrow> ?ans ! i = CHR ''0''"
      using Cons.prems(5) by (simp add: nth_list_update)
    have len: "length ?ans = length word" using Cons.prems(3) by simp
    from Cons.IH[OF rest Cons.prems(2) len inv zeros]
    obtain ans' cc' where r: "first_pass target (Suc pos) cs ?ans ?cc = Inr (ans', cc')"
      and l: "length ans' = length word"
      and v: "\<forall>i<length word. ans' ! i =
               (if Suc pos \<le> i \<and> word ! i = target ! i then CHR ''2'' else ?ans ! i)"
      and nn: "\<forall>c. 0 \<le> dict_get cc' c 0"
      and m: "\<forall>c'. int (card (mset_idx c' word ans')) + dict_get cc' c' 0 =
                int (card (mset_idx c' word ?ans)) + dict_get ?cc c' 0"
      by blast
    have v': "\<forall>i<length word. ans' ! i =
               (if pos \<le> i \<and> word ! i = target ! i then CHR ''2'' else ans ! i)"
    proof (intro allI impI)
      fix i assume i: "i < length word"
      show "ans' ! i = (if pos \<le> i \<and> word ! i = target ! i then CHR ''2'' else ans ! i)"
      proof (cases "i = pos")
        case True
        then show ?thesis using v i c \<open>target ! pos = c\<close> Cons.prems(3) by simp
      next
        case False
        then show ?thesis using v i by (auto simp: nth_list_update)
      qed
    qed
    have m': "\<forall>c'. int (card (mset_idx c' word ans')) + dict_get cc' c' 0 =
                int (card (mset_idx c' word ans)) + dict_get cc c' 0"
    proof
      fix c'
      have "ans ! pos = CHR ''0''" using Cons.prems(5) pos by simp
      then have "card (mset_idx c' word ?ans) =
                 card (mset_idx c' word ans) + (if word ! pos = c' then 1 else 0)"
        using mset_idx_update[OF pos Cons.prems(3)] by simp
      then show "int (card (mset_idx c' word ans')) + dict_get cc' c' 0 =
                int (card (mset_idx c' word ans)) + dict_get cc c' 0"
        using m c by (auto simp: dict_get_upd)
    qed
    show ?thesis using step r l v' nn m' by simp
  next
    case False
    have step: "first_pass target pos (c # cs) ans cc = first_pass target (Suc pos) cs ans cc"
      using post False by simp
    have inv: "\<forall>c'. int (count_list (drop (Suc pos) target) c') \<le> dict_get cc c' 0"
    proof
      fix c'
      have "int (count_list (drop pos target) c') \<le> dict_get cc c' 0"
        using Cons.prems(4) by blast
      then show "int (count_list (drop (Suc pos) target) c') \<le> dict_get cc c' 0"
        using post by (auto simp: count_list_drop split: if_splits)
    qed
    have zeros: "\<forall>i. Suc pos \<le> i \<and> i < length word \<longrightarrow> ans ! i = CHR ''0''"
      using Cons.prems(5) by simp
    from Cons.IH[OF rest Cons.prems(2) Cons.prems(3) inv zeros]
    obtain ans' cc' where r: "first_pass target (Suc pos) cs ans cc = Inr (ans', cc')"
      and l: "length ans' = length word"
      and v: "\<forall>i<length word. ans' ! i =
               (if Suc pos \<le> i \<and> word ! i = target ! i then CHR ''2'' else ans ! i)"
      and nn: "\<forall>c. 0 \<le> dict_get cc' c 0"
      and m: "\<forall>c'. int (card (mset_idx c' word ans')) + dict_get cc' c' 0 =
                int (card (mset_idx c' word ans)) + dict_get cc c' 0"
      by blast
    have v': "\<forall>i<length word. ans' ! i =
               (if pos \<le> i \<and> word ! i = target ! i then CHR ''2'' else ans ! i)"
    proof (intro allI impI)
      fix i assume i: "i < length word"
      show "ans' ! i = (if pos \<le> i \<and> word ! i = target ! i then CHR ''2'' else ans ! i)"
      proof (cases "i = pos")
        case True
        then show ?thesis using v i c False Cons.prems(5) by simp
      next
        case False
        then show ?thesis using v i by auto
      qed
    qed
    show ?thesis using step r l v' nn m by simp
  qed
qed

lemma first_pass_IndexError:
  assumes "length target < pos + length cs" "pos \<le> length target"
    and "\<forall>c. int (count_list (drop pos target) c) \<le> dict_get cc c 0"
  shows "first_pass target pos cs ans cc = Inl IndexError"
  using assms
proof (induction cs arbitrary: pos ans cc)
  case Nil
  then show ?case by simp
next
  case (Cons c cs)
  show ?case
  proof (cases "length target \<le> pos")
    case True
    then show ?thesis by simp
  next
    case False
    then have post: "pos < length target" by simp
    have lt: "length target < Suc pos + length cs" using Cons.prems(1) by simp
    have le: "Suc pos \<le> length target" using post by simp
    show ?thesis
    proof (cases "target ! pos = c")
      case True
      have "1 \<le> int (count_list (drop pos target) c)"
        using post True by (simp add: count_list_drop)
      moreover have "int (count_list (drop pos target) c) \<le> dict_get cc c 0"
        using Cons.prems(3) by blast
      ultimately have gpos: "0 < dict_get cc c 0" by linarith
      let ?cc = "cc(c \<mapsto> dict_get cc c 0 - 1)"
      have inv: "\<forall>c'. int (count_list (drop (Suc pos) target) c') \<le> dict_get ?cc c' 0"
      proof
        fix c'
        have "int (count_list (drop pos target) c') \<le> dict_get cc c' 0"
          using Cons.prems(3) by blast
        then show "int (count_list (drop (Suc pos) target) c') \<le> dict_get ?cc c' 0"
          using post True by (auto simp: count_list_drop dict_get_upd)
      qed
      have "first_pass target pos (c # cs) ans cc =
            first_pass target (Suc pos) cs (ans[pos := CHR ''2'']) ?cc"
        using post True gpos by (simp add: dict_dec_pos)
      then show ?thesis using Cons.IH[OF lt le inv] by simp
    next
      case False
      have inv: "\<forall>c'. int (count_list (drop (Suc pos) target) c') \<le> dict_get cc c' 0"
      proof
        fix c'
        have "int (count_list (drop pos target) c') \<le> dict_get cc c' 0"
          using Cons.prems(3) by blast
        then show "int (count_list (drop (Suc pos) target) c') \<le> dict_get cc c' 0"
          using post by (auto simp: count_list_drop split: if_splits)
      qed
      have "first_pass target pos (c # cs) ans cc = first_pass target (Suc pos) cs ans cc"
        using post False by simp
      then show ?thesis using Cons.IH[OF lt le inv] by simp
    qed
  qed
qed

lemma second_pass_ok:
  assumes "drop pos word = cs" "length ans = length word"
    and "\<forall>c. 0 \<le> dict_get cc c 0"
    and "\<forall>i. pos \<le> i \<and> i < length word \<longrightarrow> ans ! i = CHR ''0'' \<or> ans ! i = CHR ''2''"
  shows "\<exists>ans' cc'. second_pass pos cs ans cc = Inr (ans', cc') \<and>
           length ans' = length word \<and>
           (\<forall>i<length word. ans' ! i = ans ! i \<or> (ans ! i = CHR ''0'' \<and> ans' ! i = CHR ''1'')) \<and>
           (\<forall>c. 0 \<le> dict_get cc' c 0) \<and>
           (\<forall>c. int (card (mset_idx c word ans')) + dict_get cc' c 0 =
                int (card (mset_idx c word ans)) + dict_get cc c 0)"
  using assms
proof (induction cs arbitrary: pos ans cc)
  case Nil
  then show ?case by simp
next
  case (Cons c cs)
  from Cons.prems(1) have pos: "pos < length word"
    by (metis drop_all list.distinct(1) not_less)
  from Cons.prems(1) have c: "word ! pos = c" and rest: "drop (Suc pos) word = cs"
    using pos by (metis Cons_nth_drop_Suc list.inject)+
  have posa: "pos < length ans" using pos Cons.prems(2) by simp
  show ?case
  proof (cases "ans ! pos \<noteq> CHR ''2'' \<and> 0 < dict_get cc c 0")
    case True
    then have a0: "ans ! pos = CHR ''0''" using Cons.prems(4) pos by blast
    let ?cc = "cc(c \<mapsto> dict_get cc c 0 - 1)"
    let ?ans = "ans[pos := CHR ''1'']"
    have step: "second_pass pos (c # cs) ans cc = second_pass (Suc pos) cs ?ans ?cc"
      using posa True by (simp add: dict_dec_pos)
    have len: "length ?ans = length word" using Cons.prems(2) by simp
    have inv: "\<forall>c'. 0 \<le> dict_get ?cc c' 0"
      using Cons.prems(3) True by (auto simp: dict_get_upd)
    have zeros: "\<forall>i. Suc pos \<le> i \<and> i < length word \<longrightarrow>
                   ?ans ! i = CHR ''0'' \<or> ?ans ! i = CHR ''2''"
      using Cons.prems(4) by (simp add: nth_list_update)
    from Cons.IH[OF rest len inv zeros]
    obtain ans' cc' where r: "second_pass (Suc pos) cs ?ans ?cc = Inr (ans', cc')"
      and l: "length ans' = length word"
      and v: "\<forall>i<length word. ans' ! i = ?ans ! i \<or> (?ans ! i = CHR ''0'' \<and> ans' ! i = CHR ''1'')"
      and nn: "\<forall>c. 0 \<le> dict_get cc' c 0"
      and m: "\<forall>c'. int (card (mset_idx c' word ans')) + dict_get cc' c' 0 =
                int (card (mset_idx c' word ?ans)) + dict_get ?cc c' 0"
      by blast
    have v': "\<forall>i<length word. ans' ! i = ans ! i \<or> (ans ! i = CHR ''0'' \<and> ans' ! i = CHR ''1'')"
    proof (intro allI impI)
      fix i assume i: "i < length word"
      show "ans' ! i = ans ! i \<or> (ans ! i = CHR ''0'' \<and> ans' ! i = CHR ''1'')"
      proof (cases "i = pos")
        case True
        then show ?thesis using v i a0 posa by auto
      next
        case False
        then show ?thesis using v i by (auto simp: nth_list_update)
      qed
    qed
    have m': "\<forall>c'. int (card (mset_idx c' word ans')) + dict_get cc' c' 0 =
                int (card (mset_idx c' word ans)) + dict_get cc c' 0"
    proof
      fix c'
      have "card (mset_idx c' word ?ans) =
                 card (mset_idx c' word ans) + (if word ! pos = c' then 1 else 0)"
        using mset_idx_update[OF pos Cons.prems(2) a0] by simp
      then show "int (card (mset_idx c' word ans')) + dict_get cc' c' 0 =
                int (card (mset_idx c' word ans)) + dict_get cc c' 0"
        using m c by (auto simp: dict_get_upd)
    qed
    show ?thesis using step r l v' nn m' by simp
  next
    case False
    have step: "second_pass pos (c # cs) ans cc = second_pass (Suc pos) cs ans cc"
      using posa False by auto
    have zeros: "\<forall>i. Suc pos \<le> i \<and> i < length word \<longrightarrow>
                   ans ! i = CHR ''0'' \<or> ans ! i = CHR ''2''"
      using Cons.prems(4) by simp
    from Cons.IH[OF rest Cons.prems(2) Cons.prems(3) zeros] step
    show ?thesis by simp
  qed
qed

lemma get_label_ok:
  assumes "length word \<le> length target"
  shows "\<exists>p. get_label word target = Inr p \<and> length p = length word \<and>
           (\<forall>i<length word. (p ! i = CHR ''2'') = (word ! i = target ! i)) \<and>
           (\<forall>i<length word. p ! i = CHR ''0'' \<or> p ! i = CHR ''1'' \<or> p ! i = CHR ''2'') \<and>
           (\<forall>c. marks c word p \<le> count_list target c)"
proof -
  let ?a0 = "replicate (length word) CHR ''0''"
  let ?c0 = "map_of (Counter target)"
  have e0: "mset_idx c word ?a0 = {}" for c
    by (auto simp: mset_idx_def)
  from first_pass_ok[of 0 word word target ?a0 ?c0] assms
  obtain a1 c1 where f: "first_pass target 0 word ?a0 ?c0 = Inr (a1, c1)"
    and l1: "length a1 = length word"
    and v1: "\<forall>i<length word. a1 ! i = (if word ! i = target ! i then CHR ''2'' else CHR ''0'')"
    and n1: "\<forall>c. 0 \<le> dict_get c1 c 0"
    and m1: "\<forall>c. int (card (mset_idx c word a1)) + dict_get c1 c 0 = int (count_list target c)"
    by (auto simp: dict_get_Counter e0)
  have z1: "\<forall>i. 0 \<le> i \<and> i < length word \<longrightarrow> a1 ! i = CHR ''0'' \<or> a1 ! i = CHR ''2''"
    using v1 by simp
  from second_pass_ok[of 0 word word a1 c1, OF _ l1 n1 z1]
  obtain a2 c2 where s: "second_pass 0 word a1 c1 = Inr (a2, c2)"
    and l2: "length a2 = length word"
    and v2: "\<forall>i<length word. a2 ! i = a1 ! i \<or> (a1 ! i = CHR ''0'' \<and> a2 ! i = CHR ''1'')"
    and n2: "\<forall>c. 0 \<le> dict_get c2 c 0"
    and m2: "\<forall>c. int (card (mset_idx c word a2)) + dict_get c2 c 0 =
                 int (card (mset_idx c word a1)) + dict_get c1 c 0"
    by auto
  have g: "get_label word target = Inr a2"
    by (simp add: get_label_def f s)
  have two: "\<forall>i<length word. (a2 ! i = CHR ''2'') = (word ! i = target ! i)"
  proof (intro allI impI)
    fix i assume i: "i < length word"
    from v1 i have "a1 ! i = (if word ! i = target ! i then CHR ''2'' else CHR ''0'')" by simp
    moreover from v2 i have "a2 ! i = a1 ! i \<or> (a1 ! i = CHR ''0'' \<and> a2 ! i = CHR ''1'')" by simp
    ultimately show "(a2 ! i = CHR ''2'') = (word ! i = target ! i)"
      by (cases "word ! i = target ! i") auto
  qed
  have sym: "\<forall>i<length word. a2 ! i = CHR ''0'' \<or> a2 ! i = CHR ''1'' \<or> a2 ! i = CHR ''2''"
  proof (intro allI impI)
    fix i assume i: "i < length word"
    from v1 i have "a1 ! i = (if word ! i = target ! i then CHR ''2'' else CHR ''0'')" by simp
    moreover from v2 i have "a2 ! i = a1 ! i \<or> (a1 ! i = CHR ''0'' \<and> a2 ! i = CHR ''1'')" by simp
    ultimately show "a2 ! i = CHR ''0'' \<or> a2 ! i = CHR ''1'' \<or> a2 ! i = CHR ''2''"
      by (cases "word ! i = target ! i") auto
  qed
  have mk: "\<forall>c. marks c word a2 \<le> count_list target c"
  proof
    fix c
    have "int (card (mset_idx c word a2)) + dict_get c2 c 0 = int (count_list target c)"
      using m1 m2 by simp
    moreover have "0 \<le> dict_get c2 c 0" using n2 by blast
    ultimately have "card (mset_idx c word a2) \<le> count_list target c" by linarith
    then show "marks c word a2 \<le> count_list target c"
      by (simp add: marks_card l2)
  qed
  show ?thesis using g l2 two sym mk by blast
qed

lemma get_label_IndexError:
  assumes "length target < length word"
  shows "get_label word target = Inl IndexError"
proof -
  have "first_pass target 0 word (replicate (length word) CHR ''0'') (map_of (Counter target))
        = Inl IndexError"
    by (rule first_pass_IndexError) (use assms in \<open>simp_all add: dict_get_Counter\<close>)
  then show ?thesis by (simp add: get_label_def)
qed

lemma get_label_self: "get_label a a = Inr (replicate (length a) CHR ''2'')"
proof -
  from get_label_ok[of a a] obtain p where g: "get_label a a = Inr p"
    and l: "length p = length a"
    and t: "\<forall>i<length a. (p ! i = CHR ''2'') = (a ! i = a ! i)"
    by auto
  have "p = replicate (length a) CHR ''2''"
    by (rule nth_equalityI) (use l t in simp_all)
  then show ?thesis using g by simp
qed

section \<open>Properties of pruning in the exact session\<close>

lemma all_hints_True:
  "(all_hints hs word = Inr True) = (\<forall>(gw, gp)\<in>set hs. get_label gw word = Inr gp)"
  by (induction hs) (auto split: sum.splits if_splits)

lemma all_hints_total:
  "\<forall>(gw, gp)\<in>set hs. length gw \<le> length word \<Longrightarrow> \<exists>b. all_hints hs word = Inr b"
proof (induction hs)
  case Nil
  then show ?case by auto
next
  case (Cons h hs)
  obtain gw gp where h: "h = (gw, gp)" by (cases h)
  with Cons.prems have "length gw \<le> length word" by simp
  then obtain p where "get_label gw word = Inr p" using get_label_ok by blast
  moreover from Cons have "\<exists>b. all_hints hs word = Inr b" by simp
  ultimately show ?case using h by auto
qed

lemma all_hints_append:
  "all_hints (hs @ hs') word =
     (case all_hints hs word of Inl e \<Rightarrow> Inl e
      | Inr b \<Rightarrow> if b then all_hints hs' word else Inr False)"
  by (induction hs) (auto split: sum.splits)

lemma all_hints_repeat:
  assumes "h \<in> set hs"
  shows "all_hints (hs @ [h]) word = all_hints hs word"
proof (cases "all_hints hs word")
  case (Inl e)
  then show ?thesis by (simp add: all_hints_append)
next
  case (Inr b)
  show ?thesis
  proof (cases b)
    case True
    with Inr have "\<forall>(gw, gp)\<in>set hs. get_label gw word = Inr gp"
      by (simp add: all_hints_True)
    with assms have "get_label (fst h) word = Inr (snd h)" by auto
    then have "all_hints [h] word = Inr True" by (cases h) simp
    with Inr True show ?thesis by (simp add: all_hints_append)
  next
    case False
    with Inr show ?thesis by (simp add: all_hints_append)
  qed
qed

lemma kept_words_Inr:
  "kept_words hs ws = Inr r \<Longrightarrow>
   r = filter (\<lambda>w. \<forall>(gw, gp)\<in>set hs. get_label gw w = Inr gp) ws"
proof (induction ws arbitrary: r)
  case Nil
  then show ?case by simp
next
  case (Cons w ws)
  from Cons.prems obtain keep r' where k: "all_hints hs w = Inr keep"
    and r': "kept_words hs ws = Inr r'" and r: "r = (if keep then w # r' else r')"
    by (auto split: sum.splits)
  have "keep = (\<forall>(gw, gp)\<in>set hs. get_label gw w = Inr gp)"
    using k all_hints_True[of hs w] by auto
  then show ?case using Cons.IH[OF r'] r by simp
qed

lemma kept_words_total:
  "\<forall>w\<in>set ws. \<forall>(gw, gp)\<in>set hs. length gw \<le> length w \<Longrightarrow> \<exists>r. kept_words hs ws = Inr r"
proof (induction ws)
  case Nil
  then show ?case by simp
next
  case (Cons w ws)
  then have "\<forall>(gw, gp)\<in>set hs. length gw \<le> length w" by simp
  then obtain b where "all_hints hs w = Inr b" using all_hints_total by blast
  moreover from Cons obtain r where "kept_words hs ws = Inr r" by auto
  ultimately show ?case by simp
qed

lemma kept_words_fixed:
  "\<forall>w\<in>set ws. all_hints hs w = Inr True \<Longrightarrow> kept_words hs ws = Inr ws"
  by (induction ws) auto

lemma kept_words_again:
  assumes "kept_words hs ws = Inr r"
  shows "kept_words hs r = Inr r"
proof (rule kept_words_fixed)
  show "\<forall>w\<in>set r. all_hints hs w = Inr True"
    unfolding kept_words_Inr[OF assms] all_hints_True by simp
qed

lemma kept_words_repeat:
  "h \<in> set hs \<Longrightarrow> kept_words (hs @ [h]) ws = kept_words hs ws"
  by (induction ws) (auto simp: all_hints_repeat split: sum.splits)

lemma prune_words_Inr:
  "prune_words lg hs ws = Inr r \<Longrightarrow>
   lg \<and> r = filter (\<lambda>w. \<forall>(gw, gp)\<in>set hs. get_label gw w = Inr gp) ws"
  by (auto simp: prune_words_def split: sum.splits if_splits dest: kept_words_Inr)

lemma prune_words_total:
  "lg \<Longrightarrow> \<forall>w\<in>set ws. \<forall>(gw, gp)\<in>set hs. length gw \<le> length w \<Longrightarrow>
   \<exists>r. prune_words lg hs ws = Inr r"
  using kept_words_total[of ws hs] by (auto simp: prune_words_def)

lemma prune_words_again:
  "prune_words lg hs ws = Inr r \<Longrightarrow> prune_words lg hs r = Inr r"
  by (auto simp: prune_words_def split: sum.splits if_splits dest: kept_words_again)

lemma prune_words_repeat:
  "h \<in> set hs \<Longrightarrow> prune_words lg (hs @ [h]) ws = prune_words lg hs ws"
  by (simp add: prune_words_def kept_words_repeat)

lemma prune_pools_frame:
  "prune_pools lg hs ps = (err, ps') \<Longrightarrow>
   map fst ps' = map fst ps \<and> map (fst \<circ> snd) ps' = map (fst \<circ> snd) ps \<and>
   length ps' = length ps \<and>
   (\<forall>i<length ps. set (snd (snd (ps' ! i))) \<subseteq> set (snd (snd (ps ! i))) \<and>
                  length (snd (snd (ps' ! i))) \<le> length (snd (snd (ps ! i))))"
proof (induction ps arbitrary: err ps')
  case Nil
  then show ?case by simp
next
  case (Cons p rest)
  obtain word_type orig pruned where p: "p = (word_type, (orig, pruned))" by (cases p) auto
  show ?case
  proof (cases "lg \<and> (\<exists>pruned'. prune_words lg hs pruned = Inr pruned')")
    case False
    then have "ps' = p # rest"
      using Cons.prems p by (auto split: sum.splits if_splits)
    then show ?thesis by simp
  next
    case True
    then obtain pruned' where lg: lg and pw: "prune_words lg hs pruned = Inr pruned'" by blast
    obtain err0 rest' where pp: "prune_pools lg hs rest = (err0, rest')"
      by (cases "prune_pools lg hs rest")
    with Cons.prems p lg pw have e: "err = err0" and q: "ps' = (word_type, (orig, pruned')) # rest'"
      by auto
    note ih = Cons.IH[OF pp]
    have sub: "set pruned' \<subseteq> set pruned" "length pruned' \<le> length pruned"
      using prune_words_Inr[OF pw] by auto
    have "\<forall>i<length (p # rest).
            set (snd (snd (ps' ! i))) \<subseteq> set (snd (snd ((p # rest) ! i))) \<and>
            length (snd (snd (ps' ! i))) \<le> length (snd (snd ((p # rest) ! i)))"
    proof (intro allI impI)
      fix i assume "i < length (p # rest)"
      then show "set (snd (snd (ps' ! i))) \<subseteq> set (snd (snd ((p # rest) ! i))) \<and>
            length (snd (snd (ps' ! i))) \<le> length (snd (snd ((p # rest) ! i)))"
        using ih sub p q by (cases i) auto
    qed
    then show ?thesis using ih p q by simp
  qed
qed

lemma prune_pools_None:
  "prune_pools lg hs ps = (None, ps') \<Longrightarrow>
   ps' = map (\<lambda>(t, (orig, pruned)).
            (t, (orig, filter (\<lambda>w. \<forall>(gw, gp)\<in>set hs. get_label gw w = Inr gp) pruned))) ps"
proof (induction ps arbitrary: ps')
  case Nil
  then show ?case by simp
next
  case (Cons p rest)
  obtain word_type orig pruned where p: "p = (word_type, (orig, pruned))" by (cases p) auto
  from Cons.prems p obtain pruned' where lg: lg and pw: "prune_words lg hs pruned = Inr pruned'"
    by (auto split: sum.splits if_splits)
  obtain err0 rest' where pp: "prune_pools lg hs rest = (err0, rest')"
    by (cases "prune_pools lg hs rest")
  with Cons.prems p lg pw have e: "err0 = None" and q: "ps' = (word_type, (orig, pruned')) # rest'"
    by auto
  from Cons.IH pp e have "rest' = map (\<lambda>(t, (orig, pruned)).
            (t, (orig, filter (\<lambda>w. \<forall>(gw, gp)\<in>set hs. get_label gw w = Inr gp) pruned))) rest"
    by simp
  then show ?case using p q prune_words_Inr[OF pw] by simp
qed

lemma prune_pools_total:
  "lg \<Longrightarrow>
   \<forall>(t, (orig, pruned))\<in>set ps. \<forall>w\<in>set pruned. \<forall>(gw, gp)\<in>set hs. length gw \<le> length w \<Longrightarrow>
   fst (prune_pools lg hs ps) = None"
proof (induction ps)
  case Nil
  then show ?case by simp
next
  case (Cons p rest)
  obtain word_type orig pruned where p: "p = (word_type, (orig, pruned))" by (cases p) auto
  from Cons.prems p have "\<forall>w\<in>set pruned. \<forall>(gw, gp)\<in>set hs. length gw \<le> length w" by simp
  then obtain r where pw: "prune_words lg hs pruned = Inr r"
    using prune_words_total[OF Cons.prems(1)] by blast
  from Cons.prems have "\<forall>(t, (orig, pruned))\<in>set rest. \<forall>w\<in>set pruned. \<forall>(gw, gp)\<in>set hs. length gw \<le> length w"
    by simp
  from Cons.IH[OF Cons.prems(1) this] show ?case
    using pw p Cons.prems(1) by (auto split: prod.splits)
qed

lemma prune_pools_unbound:
  "prune_pools False hs ps = (if ps = [] then (None, []) else (Some NameError, ps))"
  by (cases ps) auto

lemma prune_pools_again:
  "prune_pools lg hs ps = (err, ps') \<Longrightarrow> prune_pools lg hs ps' = (err, ps')"
proof (induction ps arbitrary: err ps')
  case Nil
  then show ?case by simp
next
  case (Cons p rest)
  obtain word_type orig pruned where p: "p = (word_type, (orig, pruned))" by (cases p) auto
  show ?case
  proof (cases "lg \<and> (\<exists>pruned'. prune_words lg hs pruned = Inr pruned')")
    case False
    then have "ps' = p # rest"
      using Cons.prems p by (auto split: sum.splits if_splits)
    then show ?thesis using Cons.prems by simp
  next
    case True
    then obtain pruned' where lg: lg and pw: "prune_words lg hs pruned = Inr pruned'" by blast
    obtain err0 rest' where pp: "prune_pools lg hs rest = (err0, rest')"
      by (cases "prune_pools lg hs rest")
    with Cons.prems p lg pw have e: "err = err0" and q: "ps' = (word_type, (orig, pruned')) # rest'"
      by auto
    from Cons.IH[OF pp] prune_words_again[OF pw] show ?thesis
      using lg e q by simp
  qed
qed

lemma prune_pools_repeat:
  "h \<in> set hs \<Longrightarrow> prune_pools lg (hs @ [h]) ps = prune_pools lg hs ps"
  by (induction ps) (auto simp: prune_words_repeat split: sum.splits prod.splits)

lemma exact_add_word_hint_None:
  assumes "exact_add_word_hint lg word label s = (None, s')"
  shows "hints s' = hints s @ [(word, label)]" "xlen s' = xlen s"
    "words s' = map (\<lambda>(t, (orig, pruned)).
        (t, (orig, filter (\<lambda>w. \<forall>(gw, gp)\<in>set (hints s @ [(word, label)]). get_label gw w = Inr gp) pruned)))
        (words s)"
proof -
  obtain err ws where pp: "prune_pools lg (hints s @ [(word, label)]) (words s) = (err, ws)"
    by (cases "prune_pools lg (hints s @ [(word, label)]) (words s)")
  with assms have e: "err = None" and s': "s' = s\<lparr>hints := hints s @ [(word, label)], words := ws\<rparr>"
    by (auto simp: exact_add_word_hint_def Let_def)
  show "hints s' = hints s @ [(word, label)]" "xlen s' = xlen s" using s' by simp_all
  show "words s' = map (\<lambda>(t, (orig, pruned)).
        (t, (orig, filter (\<lambda>w. \<forall>(gw, gp)\<in>set (hints s @ [(word, label)]). get_label gw w = Inr gp) pruned)))
        (words s)"
    using prune_pools_None[of lg "hints s @ [(word, label)]" "words s" ws] pp e s' by simp
qed

lemma exact_add_word_hint_frame:
  assumes "exact_add_word_hint lg word label s = (err, s')"
  shows "hints s' = hints s @ [(word, label)]" "xlen s' = xlen s"
    "map fst (words s') = map fst (words s)"
    "map (fst \<circ> snd) (words s') = map (fst \<circ> snd) (words s)"
    "length (words s') = length (words s)"
    "\<forall>i<length (words s). set (snd (snd (words s' ! i))) \<subseteq> set (snd (snd (words s ! i))) \<and>
                  length (snd (snd (words s' ! i))) \<le> length (snd (snd (words s ! i)))"
proof -
  obtain err0 ws where pp: "prune_pools lg (hints s @ [(word, label)]) (words s) = (err0, ws)"
    by (cases "prune_pools lg (hints s @ [(word, label)]) (words s)")
  with assms have s': "s' = s\<lparr>hints := hints s @ [(word, label)], words := ws\<rparr>"
    by (auto simp: exact_add_word_hint_def Let_def)
  note f = prune_pools_frame[OF pp]
  show "hints s' = hints s @ [(word, label)]" "xlen s' = xlen s" using s' by simp_all
  show "map fst (words s') = map fst (words s)" using f s' by simp
  show "map (fst \<circ> snd) (words s') = map (fst \<circ> snd) (words s)" using f s' by simp
  show "length (words s') = length (words s)" using f s' by simp
  show "\<forall>i<length (words s). set (snd (snd (words s' ! i))) \<subseteq> set (snd (snd (words s ! i))) \<and>
                  length (snd (snd (words s' ! i))) \<le> length (snd (snd (words s ! i)))"
    using f s' by simp
qed

lemma exact_add_hints_None:
  assumes "exact_add_hints lg hs s = (None, s')"
    and "words s = map (\<lambda>(t, ws).
           (t, (ws, filter (\<lambda>w. \<forall>(gw, gp)\<in>set (hints s). get_label gw w = Inr gp) ws))) pools"
  shows "hints s' = hints s @ hs \<and> xlen s' = xlen s \<and>
         words s' = map (\<lambda>(t, ws).
           (t, (ws, filter (\<lambda>w. \<forall>(gw, gp)\<in>set (hints s @ hs). get_label gw w = Inr gp) ws))) pools"
  using assms
proof (induction hs arbitrary: s)
  case Nil
  then show ?case by simp
next
  case (Cons h hs)
  obtain word label where h: "h = (word, label)" by (cases h)
  obtain err s1 where a: "exact_add_word_hint lg word label s = (err, s1)"
    by (cases "exact_add_word_hint lg word label s")
  with Cons.prems(1) h have e: "err = None" and r: "exact_add_hints lg hs s1 = (None, s')"
    by (auto split: option.splits)
  note n = exact_add_word_hint_None[OF a[unfolded e]]
  have w1: "words s1 = map (\<lambda>(t, ws).
           (t, (ws, filter (\<lambda>w. \<forall>(gw, gp)\<in>set (hints s1). get_label gw w = Inr gp) ws))) pools"
    unfolding n(3) n(1) Cons.prems(2)
    by (auto simp: case_prod_unfold comp_def intro!: filter_cong)
  from Cons.IH[OF r w1] show ?case using n h by simp
qed

section \<open>Properties of the letter filter of the heuristic session\<close>

lemma answer_words_update [simp]:
  "answer_words (update_counts s) = answer_words s"
  "answer_words (update_chars s) = answer_words s"
  by (simp_all add: update_counts_def update_chars_def)

lemma add_char_hint_None:
  "add_char_hint char label pos s = (None, s') \<Longrightarrow>
   answer_words s' = {word \<in> answer_words s. keep_word char label pos word = Inr True}"
  by (auto simp: add_char_hint_def Let_def split: if_splits)

lemma add_char_hint_subset:
  "add_char_hint char label pos s = (err, s') \<Longrightarrow> answer_words s' \<subseteq> answer_words s"
  by (auto simp: add_char_hint_def Let_def split: if_splits)

lemma add_char_hint_fixed:
  "\<forall>word\<in>answer_words s. keep_word char label pos word = Inr True \<Longrightarrow>
   \<exists>s'. add_char_hint char label pos s = (None, s') \<and> answer_words s' = answer_words s"
  by (auto simp: add_char_hint_def Let_def)

lemma add_char_hints_None:
  "add_char_hints pos cls s = (None, s') \<Longrightarrow>
   answer_words s' = {word \<in> answer_words s.
      \<forall>j<length cls. keep_word (fst (cls ! j)) (snd (cls ! j)) (pos + j) word = Inr True}"
proof (induction cls arbitrary: pos s)
  case Nil
  then show ?case by simp
next
  case (Cons cl rest)
  obtain char label where cl: "cl = (char, label)" by (cases cl)
  obtain err s1 where a: "add_char_hint char label pos s = (err, s1)"
    by (cases "add_char_hint char label pos s")
  with Cons.prems cl have e: "err = None" and r: "add_char_hints (Suc pos) rest s1 = (None, s')"
    by (auto split: option.splits)
  have a1: "answer_words s1 = {word \<in> answer_words s. keep_word char label pos word = Inr True}"
    using add_char_hint_None a e by simp
  have ih: "answer_words s' = {word \<in> answer_words s1.
      \<forall>j<length rest. keep_word (fst (rest ! j)) (snd (rest ! j)) (Suc pos + j) word = Inr True}"
    using Cons.IH[OF r] by simp
  show ?case unfolding ih a1 cl
    by (auto simp: less_Suc_eq_0_disj)
qed

lemma add_char_hints_subset:
  "add_char_hints pos cls s = (err, s') \<Longrightarrow> answer_words s' \<subseteq> answer_words s"
proof (induction cls arbitrary: pos s)
  case Nil
  then show ?case by simp
next
  case (Cons cl rest)
  obtain char label where cl: "cl = (char, label)" by (cases cl)
  obtain err1 s1 where a: "add_char_hint char label pos s = (err1, s1)"
    by (cases "add_char_hint char label pos s")
  note sub = add_char_hint_subset[OF a]
  show ?case
  proof (cases err1)
    case None
    with a Cons.prems cl have "add_char_hints (Suc pos) rest s1 = (err, s')" by simp
    with Cons.IH have "answer_words s' \<subseteq> answer_words s1" by simp
    with sub show ?thesis by blast
  next
    case (Some e)
    with a Cons.prems cl have "s' = s1" by simp
    with sub show ?thesis by simp
  qed
qed

lemma add_char_hints_fixed:
  "\<forall>word\<in>answer_words s. \<forall>j<length cls.
      keep_word (fst (cls ! j)) (snd (cls ! j)) (pos + j) word = Inr True \<Longrightarrow>
   \<exists>s'. add_char_hints pos cls s = (None, s') \<and> answer_words s' = answer_words s"
proof (induction cls arbitrary: pos s)
  case Nil
  then show ?case by simp
next
  case (Cons cl rest)
  obtain char label where cl: "cl = (char, label)" by (cases cl)
  have "\<forall>word\<in>answer_words s. keep_word char label pos word = Inr True"
    using Cons.prems cl by fastforce
  then obtain s1 where a: "add_char_hint char label pos s = (None, s1)"
    and w: "answer_words s1 = answer_words s"
    using add_char_hint_fixed by blast
  have "\<forall>word\<in>answer_words s1. \<forall>j<length rest.
      keep_word (fst (rest ! j)) (snd (rest ! j)) (Suc pos + j) word = Inr True"
  proof (intro ballI allI impI)
    fix word j assume "word \<in> answer_words s1" "j < length rest"
    then have "keep_word (fst (((char, label) # rest) ! Suc j)) (snd (((char, label) # rest) ! Suc j))
                 (pos + Suc j) word = Inr True"
      using Cons.prems w cl by (metis Suc_less_eq length_Cons)
    then show "keep_word (fst (rest ! j)) (snd (rest ! j)) (Suc pos + j) word = Inr True" by simp
  qed
  with Cons.IH[of s1 "Suc pos"]
  obtain s' where "add_char_hints (Suc pos) rest s1 = (None, s')" "answer_words s' = answer_words s1"
    by auto
  then show ?case using a w cl by simp
qed

lemma wordle_add_word_hint_subset:
  "wordle_add_word_hint word label s = (err, s') \<Longrightarrow> answer_words s' \<subseteq> answer_words s"
  by (auto simp: wordle_add_word_hint_def split: if_splits dest: add_char_hints_subset)

lemma wordle_add_word_hint_None:
  assumes "wordle_add_word_hint word label s = (None, s')"
  shows "length word = length label"
    and "answer_words s' = {w \<in> answer_words s.
           \<forall>i<length word. keep_word (word ! i) (label ! i) i w = Inr True}"
proof -
  from assms have v: "\<not> (\<exists>char\<in>set label. char \<notin> {CHR ''0'', CHR ''1'', CHR ''2''})"
    and l: "length word = length label"
    and a: "add_char_hints 0 (zip word label) s = (None, s')"
    by (auto simp: wordle_add_word_hint_def split: if_splits)
  show "length word = length label" by (rule l)
  show "answer_words s' = {w \<in> answer_words s.
           \<forall>i<length word. keep_word (word ! i) (label ! i) i w = Inr True}"
    using add_char_hints_None[OF a] l by simp
qed

lemma wordle_add_word_hint_atomic:
  "(\<exists>char\<in>set label. char \<notin> {CHR ''0'', CHR ''1'', CHR ''2''}) \<or> length word \<noteq> length label \<Longrightarrow>
   wordle_add_word_hint word label s = (Some AssertionError, s)"
  by (auto simp: wordle_add_word_hint_def)

lemma keep_word_True:
  "(keep_word char label pos word = Inr True) =
     ((label = CHR ''0'' \<longrightarrow> char \<notin> set word) \<and>
      (label = CHR ''1'' \<longrightarrow> char \<in> set word \<and> pos < length word \<and> word ! pos \<noteq> char) \<and>
      (label = CHR ''2'' \<longrightarrow> char \<in> set word \<and> pos < length word \<and> word ! pos = char))"
  by (auto simp: keep_word_def Let_def)

lemma keep_word_IndexError:
  "(keep_word char label pos word = Inl e) =
     (e = IndexError \<and> (label = CHR ''1'' \<or> label = CHR ''2'') \<and> char \<in> set word \<and>
      length word \<le> pos)"
  by (auto simp: keep_word_def Let_def)

lemma add_char_hint_fst:
  "fst (add_char_hint char label pos u) =
     (if \<exists>word\<in>answer_words u. keep_word char label pos word = Inl IndexError
      then Some IndexError else None)"
  by (simp add: add_char_hint_def Let_def)

lemma add_char_hint_answer_words:
  "answer_words (snd (add_char_hint char label pos u)) =
     (if \<exists>word\<in>answer_words u. keep_word char label pos word = Inl IndexError
      then answer_words u
      else {word \<in> answer_words u. keep_word char label pos word = Inr True})"
  by (simp add: add_char_hint_def Let_def)

lemma add_char_hint_same_words:
  assumes "answer_words u = answer_words t"
  shows "fst (add_char_hint char label pos u) = fst (add_char_hint char label pos t)"
    and "answer_words (snd (add_char_hint char label pos u)) =
         answer_words (snd (add_char_hint char label pos t))"
  by (simp_all only: add_char_hint_fst add_char_hint_answer_words assms)

lemma add_char_hints_again:
  "add_char_hints pos cls t = (e, t1) \<Longrightarrow> answer_words u = answer_words t1 \<Longrightarrow>
   \<exists>u'. add_char_hints pos cls u = (e, u') \<and> answer_words u' = answer_words t1"
proof (induction cls arbitrary: pos t u)
  case Nil
  then show ?case by simp
next
  case (Cons cl rest)
  obtain char label where cl: "cl = (char, label)" by (cases cl)
  obtain e0 t' where a: "add_char_hint char label pos t = (e0, t')"
    by (cases "add_char_hint char label pos t")
  show ?case
  proof (cases e0)
    case (Some err)
    with a Cons.prems(1) cl have e: "e = Some err" and t1: "t1 = t'" by simp_all
    from a Some have "t' = t" by (simp add: add_char_hint_def Let_def split: if_splits)
    with t1 Cons.prems(2) have same: "answer_words u = answer_words t" by simp
    have "fst (add_char_hint char label pos u) = Some err"
      using add_char_hint_same_words(1)[OF same, of char label pos] a Some by simp
    moreover have "answer_words (snd (add_char_hint char label pos u)) = answer_words t1"
      using add_char_hint_same_words(2)[OF same, of char label pos] a t1 by simp
    ultimately show ?thesis using cl e
      by (cases "add_char_hint char label pos u") simp
  next
    case None
    with a Cons.prems(1) cl have r: "add_char_hints (Suc pos) rest t' = (e, t1)" by simp
    have t': "answer_words t' = {word \<in> answer_words t. keep_word char label pos word = Inr True}"
      using add_char_hint_None a None by simp
    have "answer_words t1 \<subseteq> answer_words t'" using add_char_hints_subset[OF r] .
    with t' Cons.prems(2) have "\<forall>word\<in>answer_words u. keep_word char label pos word = Inr True"
      by auto
    from add_char_hint_fixed[OF this]
    obtain u1 where b: "add_char_hint char label pos u = (None, u1)"
      and u1: "answer_words u1 = answer_words u" by blast
    from u1 Cons.prems(2) have "answer_words u1 = answer_words t1" by simp
    from Cons.IH[OF r this]
    obtain u' where "add_char_hints (Suc pos) rest u1 = (e, u')" "answer_words u' = answer_words t1"
      by blast
    then show ?thesis using b cl by simp
  qed
qed

lemma wordle_add_word_hint_checked:
  assumes "\<not> ((\<exists>char\<in>set label. char \<notin> {CHR ''0'', CHR ''1'', CHR ''2''}) \<or> length word \<noteq> length label)"
  shows "wordle_add_word_hint word label s = add_char_hints 0 (zip word label) s"
proof -
  from assms have a: "\<not> (\<exists>char\<in>set label. char \<notin> {CHR ''0'', CHR ''1'', CHR ''2''})"
    and b: "\<not> length word \<noteq> length label" by blast+
  show ?thesis unfolding wordle_add_word_hint_def
    by (simp only: a b if_False)
qed

lemma wordle_add_word_hint_again:
  assumes "wordle_add_word_hint word label t = (e, t1)"
  shows "\<exists>t2. wordle_add_word_hint word label t1 = (e, t2) \<and> answer_words t2 = answer_words t1"
proof (cases "(\<exists>char\<in>set label. char \<notin> {CHR ''0'', CHR ''1'', CHR ''2''}) \<or> length word \<noteq> length label")
  case True
  have "wordle_add_word_hint word label s = (Some AssertionError, s)" for s
    using True by (rule wordle_add_word_hint_atomic)
  with assms show ?thesis by simp
next
  case False
  note c = wordle_add_word_hint_checked[OF False]
  from assms have a: "add_char_hints 0 (zip word label) t = (e, t1)"
    by (simp only: c)
  from add_char_hints_again[OF a refl]
  obtain t2 where "add_char_hints 0 (zip word label) t1 = (e, t2)" "answer_words t2 = answer_words t1"
    by blast
  then show ?thesis by (simp only: c) blast
qed

lemma wordle_add_word_hint_spec:
  assumes "wordle_add_word_hint word label t = (None, t')"
  shows "answer_words t' = {w \<in> answer_words t. \<forall>i<length word.
           (label ! i = CHR ''0'' \<longrightarrow> word ! i \<notin> set w) \<and>
           (label ! i = CHR ''1'' \<longrightarrow> word ! i \<in> set w \<and> i < length w \<and> w ! i \<noteq> word ! i) \<and>
           (label ! i = CHR ''2'' \<longrightarrow> word ! i \<in> set w \<and> i < length w \<and> w ! i = word ! i)}"
  by (simp only: wordle_add_word_hint_None(2)[OF assms] keep_word_True)

lemma wordle_init_fields [simp]:
  "answer_words (wordle_init n allowed answers) = answers"
  "allowed_words (wordle_init n allowed answers) = allowed"
  "wlen (wordle_init n allowed answers) = n"
  by (simp_all add: wordle_init_def update_counts_def update_chars_def)

section \<open>Sequences of hints\<close>

lemma exact_add_hints_frame:
  "exact_add_hints lg hs s = (err, s') \<Longrightarrow>
   length (words s') = length (words s) \<and> map fst (words s') = map fst (words s) \<and>
   map (fst \<circ> snd) (words s') = map (fst \<circ> snd) (words s) \<and>
   (\<forall>i<length (words s). set (snd (snd (words s' ! i))) \<subseteq> set (snd (snd (words s ! i))) \<and>
                  length (snd (snd (words s' ! i))) \<le> length (snd (snd (words s ! i))))"
proof (induction hs arbitrary: s)
  case Nil
  then show ?case by simp
next
  case (Cons h hs)
  obtain word label where h: "h = (word, label)" by (cases h)
  obtain err1 s1 where a: "exact_add_word_hint lg word label s = (err1, s1)"
    by (cases "exact_add_word_hint lg word label s")
  note f = exact_add_word_hint_frame[OF a]
  show ?case
  proof (cases err1)
    case None
    with a Cons.prems h have r: "exact_add_hints lg hs s1 = (err, s')" by simp
    note ih = Cons.IH[OF r]
    have ih1: "length (words s') = length (words s1)"
      and ih2: "map fst (words s') = map fst (words s1)"
      and ih3: "map (fst \<circ> snd) (words s') = map (fst \<circ> snd) (words s1)"
      using ih by blast+
    have "\<forall>i<length (words s). set (snd (snd (words s' ! i))) \<subseteq> set (snd (snd (words s ! i))) \<and>
                  length (snd (snd (words s' ! i))) \<le> length (snd (snd (words s ! i)))"
    proof (intro allI impI)
      fix i assume i: "i < length (words s)"
      then have "set (snd (snd (words s1 ! i))) \<subseteq> set (snd (snd (words s ! i)))"
        "length (snd (snd (words s1 ! i))) \<le> length (snd (snd (words s ! i)))"
        using f(6) by simp_all
      moreover have "set (snd (snd (words s' ! i))) \<subseteq> set (snd (snd (words s1 ! i)))"
        "length (snd (snd (words s' ! i))) \<le> length (snd (snd (words s1 ! i)))"
        using ih i f(5) by simp_all
      ultimately show "set (snd (snd (words s' ! i))) \<subseteq> set (snd (snd (words s ! i))) \<and>
                  length (snd (snd (words s' ! i))) \<le> length (snd (snd (words s ! i)))"
        by (meson order_trans)
    qed
    moreover have "length (words s') = length (words s)" using ih1 f(5) by simp
    moreover have "map fst (words s') = map fst (words s)" using ih2 f(3) by simp
    moreover have "map (fst \<circ> snd) (words s') = map (fst \<circ> snd) (words s)"
      using ih3 f(4) by (rule trans)
    ultimately show ?thesis by blast
  next
    case (Some e)
    with a Cons.prems h have "s' = s1" by simp
    then show ?thesis using f by blast
  qed
qed

lemma wordle_add_hints_subset:
  "wordle_add_hints hs s = (err, s') \<Longrightarrow> answer_words s' \<subseteq> answer_words s"
proof (induction hs arbitrary: s)
  case Nil
  then show ?case by simp
next
  case (Cons h hs)
  obtain word label where h: "h = (word, label)" by (cases h)
  obtain err1 s1 where a: "wordle_add_word_hint word label s = (err1, s1)"
    by (cases "wordle_add_word_hint word label s")
  note sub = wordle_add_word_hint_subset[OF a]
  show ?case
  proof (cases err1)
    case None
    with a Cons.prems h have "wordle_add_hints hs s1 = (err, s')" by simp
    with Cons.IH have "answer_words s' \<subseteq> answer_words s1" by simp
    with sub show ?thesis by blast
  next
    case (Some e)
    with a Cons.prems h have "s' = s1" by simp
    with sub show ?thesis by simp
  qed
qed

lemma exact_add_word_hint_total:
  assumes "\<forall>(t, (orig, pruned))\<in>set (words s). \<forall>w\<in>set pruned. n \<le> length w"
    and "\<forall>(gw, gp)\<in>set (hints s). length gw \<le> n" "length word \<le> n" and lg
  shows "fst (exact_add_word_hint lg word label s) = None"
proof -
  have "\<forall>(t, (orig, pruned))\<in>set (words s). \<forall>w\<in>set pruned.
          \<forall>(gw, gp)\<in>set (hints s @ [(word, label)]). length gw \<le> length w"
    using assms by fastforce
  from prune_pools_total[OF \<open>lg\<close> this] show ?thesis
    by (auto simp: exact_add_word_hint_def Let_def split: prod.splits)
qed

lemma exact_add_hints_total:
  assumes "\<forall>(t, (orig, pruned))\<in>set (words s). \<forall>w\<in>set pruned. n \<le> length w"
    and "\<forall>(gw, gp)\<in>set (hints s). length gw \<le> n" "\<forall>(gw, gp)\<in>set hs. length gw \<le> n" and lg
  shows "fst (exact_add_hints lg hs s) = None"
  using assms
proof (induction hs arbitrary: s)
  case Nil
  then show ?case by simp
next
  case (Cons h hs)
  obtain word label where h: "h = (word, label)" by (cases h)
  with Cons.prems(3) have lw: "length word \<le> n" by simp
  obtain err1 s1 where a: "exact_add_word_hint lg word label s = (err1, s1)"
    by (cases "exact_add_word_hint lg word label s")
  have e: "err1 = None"
    using exact_add_word_hint_total[OF Cons.prems(1) Cons.prems(2) lw Cons.prems(4), of label] a by simp
  note f = exact_add_word_hint_frame[OF a]
  have p1: "\<forall>(t, (orig, pruned))\<in>set (words s1). \<forall>w\<in>set pruned. n \<le> length w"
  proof (intro ballI, clarify)
    fix t orig pruned w
    assume m: "(t, orig, pruned) \<in> set (words s1)" and w: "w \<in> set pruned"
    from m obtain i where i: "i < length (words s1)" "words s1 ! i = (t, orig, pruned)"
      by (auto simp: in_set_conv_nth)
    have "set (snd (snd (words s1 ! i))) \<subseteq> set (snd (snd (words s ! i)))"
      using f(6) i(1) f(5) by simp
    then have "set pruned \<subseteq> set (snd (snd (words s ! i)))" using i(2) by simp
    with w have "w \<in> set (snd (snd (words s ! i)))" by blast
    moreover have "words s ! i \<in> set (words s)" using i f(5) by simp
    ultimately show "n \<le> length w" using Cons.prems(1) by (cases "words s ! i") auto
  qed
  have p2: "\<forall>(gw, gp)\<in>set (hints s1). length gw \<le> n"
    using f(1) Cons.prems(2) lw by auto
  have p3: "\<forall>(gw, gp)\<in>set hs. length gw \<le> n" using Cons.prems(3) by simp
  from Cons.IH[OF p1 p2 p3 Cons.prems(4)] show ?case using a e h by simp
qed

lemma keep_word_no_error: "pos < length word \<Longrightarrow> keep_word char label pos word \<noteq> Inl e"
  by (auto simp: keep_word_def Let_def)

lemma add_char_hints_total:
  "\<forall>word\<in>answer_words s. pos + length cls \<le> length word \<Longrightarrow> fst (add_char_hints pos cls s) = None"
proof (induction cls arbitrary: pos s)
  case Nil
  then show ?case by simp
next
  case (Cons cl rest)
  obtain char label where cl: "cl = (char, label)" by (cases cl)
  have "\<forall>word\<in>answer_words s. keep_word char label pos word \<noteq> Inl IndexError"
    using Cons.prems by (auto intro!: keep_word_no_error)
  then obtain s1 where a: "add_char_hint char label pos s = (None, s1)"
    by (auto simp: add_char_hint_def Let_def)
  have "answer_words s1 \<subseteq> answer_words s" using add_char_hint_subset[OF a] .
  with Cons.prems have "\<forall>word\<in>answer_words s1. Suc pos + length rest \<le> length word" by auto
  from Cons.IH[OF this] show ?case using a cl by simp
qed

lemma wordle_add_word_hint_total:
  assumes "\<forall>w\<in>answer_words s. length w = wlen s"
    and "length word = wlen s" "length label = wlen s"
    and "set label \<subseteq> {CHR ''0'', CHR ''1'', CHR ''2''}"
  shows "fst (wordle_add_word_hint word label s) = None"
proof -
  have "\<forall>w\<in>answer_words s. 0 + length (zip word label) \<le> length w"
    using assms by simp
  from add_char_hints_total[OF this] show ?thesis
    using assms by (auto simp: wordle_add_word_hint_def)
qed

section \<open>The same hint again\<close>

lemma exact_add_word_hint_again:
  assumes "exact_add_word_hint lg word label s = (err, s1)"
  shows "exact_add_word_hint lg word label s1 = (err, s1\<lparr>hints := hints s1 @ [(word, label)]\<rparr>)"
proof -
  let ?h1 = "hints s @ [(word, label)]"
  obtain err0 ws where pp: "prune_pools lg ?h1 (words s) = (err0, ws)"
    by (cases "prune_pools lg ?h1 (words s)")
  with assms have e: "err = err0" and s1: "s1 = s\<lparr>hints := ?h1, words := ws\<rparr>"
    by (auto simp: exact_add_word_hint_def Let_def)
  have "prune_pools lg (?h1 @ [(word, label)]) ws = prune_pools lg ?h1 ws"
    by (rule prune_pools_repeat) simp
  also have "\<dots> = (err0, ws)" using pp by (rule prune_pools_again)
  finally show ?thesis using s1 e by (simp add: exact_add_word_hint_def Let_def)
qed

section \<open>Evaluation\<close>

lemmas label_eval = get_label_def Counter_def dict_get_def dict_dec_def

lemmas exact_eval = label_eval exact_init_def exact_add_word_hint_def prune_words_def Let_def

lemmas wordle_eval = wordle_add_word_hint_def wordle_init_def add_char_hint_def keep_word_def Let_def

lemma example_heuristic_hint:
  "fst (wordle_add_word_hint ''abx'' ''220'' (wordle_init 3 {''abc'', ''cab''} {''abc'', ''cab''})) = None"
  "answer_words (snd (wordle_add_word_hint ''abx'' ''220''
      (wordle_init 3 {''abc'', ''cab''} {''abc'', ''cab''}))) = {''abc''}"
proof -
  let ?T = "wordle_init 3 {''abc'', ''cab''} {''abc'', ''cab''}"
  show f: "fst (wordle_add_word_hint ''abx'' ''220'' ?T) = None"
    by (rule wordle_add_word_hint_total) simp_all
  then have d: "wordle_add_word_hint ''abx'' ''220'' ?T =
      (None, snd (wordle_add_word_hint ''abx'' ''220'' ?T))"
    by (simp add: prod_eq_iff)
  have "{w \<in> {''abc'', ''cab''}. \<forall>i<length ''abx''.
         (''220'' ! i = CHR ''0'' \<longrightarrow> ''abx'' ! i \<notin> set w) \<and>
         (''220'' ! i = CHR ''1'' \<longrightarrow> ''abx'' ! i \<in> set w \<and> i < length w \<and> w ! i \<noteq> ''abx'' ! i) \<and>
         (''220'' ! i = CHR ''2'' \<longrightarrow> ''abx'' ! i \<in> set w \<and> i < length w \<and> w ! i = ''abx'' ! i)}
     = {w \<in> {''abc'', ''cab''}. w = ''abc''}"
    by (rule Collect_cong) (auto simp: All_less_Suc)
  also have "\<dots> = {''abc''}" by auto
  finally show "answer_words (snd (wordle_add_word_hint ''abx'' ''220'' ?T)) = {''abc''}"
    using wordle_add_word_hint_spec[OF d] unfolding wordle_init_fields by simp
qed

lemma example_exact_hint:
  "exact_add_word_hint True ''aab'' ''201''
     \<lparr>xlen = 3, hints = [],
       words = [(''allowed'', ([''abc'', ''aab'', ''xyz''], [''abc'', ''aab'', ''xyz''])),
                (''answers'', ([''abc'', ''cab''], [''abc'', ''cab'']))]\<rparr> =
   (None, \<lparr>xlen = 3, hints = [(''aab'', ''201'')],
       words = [(''allowed'', ([''abc'', ''aab'', ''xyz''], [''abc''])),
                (''answers'', ([''abc'', ''cab''], [''abc'']))]\<rparr>)"
  by (simp add: exact_eval)

section \<open>Claims\<close>

subsection \<open>Hints and candidates\<close>

text \<open>
  C1, as amended. In the exact session, take a session whose pruned lists hold the words
  of the original lists that agree with the hints recorded so far (as is the case when no
  hint is recorded and the two lists of a pool are equal). When the calls of
  \<open>add_word_hint\<close> for the hints \<open>hs\<close> all return, the hints \<open>hs\<close> are recorded after the
  earlier ones and the pruned list of every pool, the answer pool among them, holds exactly
  the words \<open>w\<close> of the original list with \<open>get_label gw w = gp\<close> for every recorded hint
  \<open>(gw, gp)\<close>. The calls do return when \<open>logger\<close> is bound and the words of the pools and
  of the hints have the session's length. The heuristic session records no hints and
  computes no labels: a call of its \<open>add_word_hint\<close> that returns keeps exactly the answer
  words \<open>w\<close> that satisfy, at every position \<open>i\<close> of the hint, the condition of the label:
  for \<open>0\<close> the letter \<open>word ! i\<close> is not in \<open>w\<close>; for \<open>1\<close> it is in \<open>w\<close> and not at position
  \<open>i\<close>; for \<open>2\<close> it is at position \<open>i\<close> of \<open>w\<close>.
\<close>

theorem candidates_after_hints:
  "(words s = map (\<lambda>(t, ws).
        (t, (ws, filter (\<lambda>w. \<forall>(gw, gp)\<in>set (hints s). get_label gw w = Inr gp) ws))) pools \<and>
    exact_add_hints lg hs s = (None, s') \<longrightarrow>
      hints s' = hints s @ hs \<and>
      words s' = map (\<lambda>(t, ws).
        (t, (ws, filter (\<lambda>w. \<forall>(gw, gp)\<in>set (hints s @ hs). get_label gw w = Inr gp) ws))) pools) \<and>
   (lg \<and> (\<forall>(t, (orig, pruned))\<in>set (words s). \<forall>w\<in>set pruned. length w = xlen s) \<and>
    (\<forall>(gw, gp)\<in>set (hints s @ hs). length gw = xlen s) \<longrightarrow>
      fst (exact_add_hints lg hs s) = None) \<and>
   (wordle_add_word_hint word label t = (None, t') \<longrightarrow>
      answer_words t' = {w \<in> answer_words t. \<forall>i<length word.
         (label ! i = CHR ''0'' \<longrightarrow> word ! i \<notin> set w) \<and>
         (label ! i = CHR ''1'' \<longrightarrow> word ! i \<in> set w \<and> i < length w \<and> w ! i \<noteq> word ! i) \<and>
         (label ! i = CHR ''2'' \<longrightarrow> word ! i \<in> set w \<and> i < length w \<and> w ! i = word ! i)})"
proof (intro conjI impI)
  assume a: "words s = map (\<lambda>(t, ws).
        (t, (ws, filter (\<lambda>w. \<forall>(gw, gp)\<in>set (hints s). get_label gw w = Inr gp) ws))) pools \<and>
    exact_add_hints lg hs s = (None, s')"
  from exact_add_hints_None[OF conjunct2[OF a] conjunct1[OF a]]
  show "hints s' = hints s @ hs"
    and "words s' = map (\<lambda>(t, ws).
        (t, (ws, filter (\<lambda>w. \<forall>(gw, gp)\<in>set (hints s @ hs). get_label gw w = Inr gp) ws))) pools"
    by blast+
next
  assume v: "lg \<and> (\<forall>(t, (orig, pruned))\<in>set (words s). \<forall>w\<in>set pruned. length w = xlen s) \<and>
    (\<forall>(gw, gp)\<in>set (hints s @ hs). length gw = xlen s)"
  have p1: "\<forall>(t, (orig, pruned))\<in>set (words s). \<forall>w\<in>set pruned. xlen s \<le> length w"
    using v by fastforce
  have v3: "\<forall>(gw, gp)\<in>set (hints s @ hs). length gw = xlen s" using v by blast
  have p2: "\<forall>(gw, gp)\<in>set (hints s). length gw \<le> xlen s" using v3 by (auto simp: ball_Un)
  have p3: "\<forall>(gw, gp)\<in>set hs. length gw \<le> xlen s" using v3 by (auto simp: ball_Un)
  have p4: lg using v by blast
  show "fst (exact_add_hints lg hs s) = None"
    by (rule exact_add_hints_total[OF p1 p2 p3 p4])
next
  assume "wordle_add_word_hint word label t = (None, t')"
  then show "answer_words t' = {w \<in> answer_words t. \<forall>i<length word.
         (label ! i = CHR ''0'' \<longrightarrow> word ! i \<notin> set w) \<and>
         (label ! i = CHR ''1'' \<longrightarrow> word ! i \<in> set w \<and> i < length w \<and> w ! i \<noteq> word ! i) \<and>
         (label ! i = CHR ''2'' \<longrightarrow> word ! i \<in> set w \<and> i < length w \<and> w ! i = word ! i)}"
    by (rule wordle_add_word_hint_spec)
qed

theorem candidates_after_hints_witness:
  "exact_add_hints True [(''aab'', ''201'')]
     \<lparr>xlen = 3, hints = [],
       words = [(''allowed'', ([''abc'', ''aab'', ''xyz''], [''abc'', ''aab'', ''xyz''])),
                (''answers'', ([''abc'', ''cab''], [''abc'', ''cab'']))]\<rparr> =
   (None, \<lparr>xlen = 3, hints = [(''aab'', ''201'')],
       words = [(''allowed'', ([''abc'', ''aab'', ''xyz''], [''abc''])),
                (''answers'', ([''abc'', ''cab''], [''abc'']))]\<rparr>) \<and>
   [(''allowed'', ([''abc'', ''aab'', ''xyz''], [''abc''])), (''answers'', ([''abc'', ''cab''], [''abc'']))] =
     map (\<lambda>(t, ws). (t, (ws, filter (\<lambda>w. \<forall>(gw, gp)\<in>set ([] @ [(''aab'', ''201'')]). get_label gw w = Inr gp) ws)))
       [(''allowed'', [''abc'', ''aab'', ''xyz'']), (''answers'', [''abc'', ''cab''])] \<and>
   fst (exact_add_hints True [(''aab'', ''201'')]
     \<lparr>xlen = 3, hints = [],
       words = [(''allowed'', ([''abc'', ''aab'', ''xyz''], [''abc'', ''aab'', ''xyz''])),
                (''answers'', ([''abc'', ''cab''], [''abc'', ''cab'']))]\<rparr>) = None \<and>
   fst (wordle_add_word_hint ''abx'' ''220'' (wordle_init 3 {''abc'', ''cab''} {''abc'', ''cab''})) = None \<and>
   answer_words (snd (wordle_add_word_hint ''abx'' ''220'' (wordle_init 3 {''abc'', ''cab''} {''abc'', ''cab''}))) =
     {''abc''}"
proof -
  let ?P = "[(''allowed'', [''abc'', ''aab'', ''xyz'']), (''answers'', [''abc'', ''cab''])]"
  let ?I = "\<lparr>xlen = 3, hints = [],
       words = [(''allowed'', ([''abc'', ''aab'', ''xyz''], [''abc'', ''aab'', ''xyz''])),
                (''answers'', ([''abc'', ''cab''], [''abc'', ''cab'']))]\<rparr>"
  let ?S = "\<lparr>xlen = 3, hints = [(''aab'', ''201'')],
       words = [(''allowed'', ([''abc'', ''aab'', ''xyz''], [''abc''])),
                (''answers'', ([''abc'', ''cab''], [''abc'']))]\<rparr>"
  let ?T = "wordle_init 3 {''abc'', ''cab''} {''abc'', ''cab''}"
  let ?U = "snd (wordle_add_word_hint ''abx'' ''220'' ?T)"
  note t = candidates_after_hints[of ?I ?P True "[(''aab'', ''201'')]" ?S "''abx''" "''220''" ?T ?U]
  have a: "exact_add_hints True [(''aab'', ''201'')] ?I = (None, ?S)"
    by (simp add: exact_eval)
  have i: "words ?I = map (\<lambda>(t, ws).
        (t, (ws, filter (\<lambda>w. \<forall>(gw, gp)\<in>set (hints ?I). get_label gw w = Inr gp) ws))) ?P"
    by simp
  have b: "hints ?S = hints ?I @ [(''aab'', ''201'')] \<and> words ?S =
     map (\<lambda>(t, ws). (t, (ws, filter (\<lambda>w. \<forall>(gw, gp)\<in>set (hints ?I @ [(''aab'', ''201'')]). get_label gw w = Inr gp) ws))) ?P"
    by (rule mp[OF conjunct1[OF t] conjI[OF i a]])
  have ws: "words ?S =
     [(''allowed'', ([''abc'', ''aab'', ''xyz''], [''abc''])), (''answers'', ([''abc'', ''cab''], [''abc'']))]"
    by simp
  have h0: "hints ?I = []" by simp
  have b': "[(''allowed'', ([''abc'', ''aab'', ''xyz''], [''abc''])), (''answers'', ([''abc'', ''cab''], [''abc'']))] =
     map (\<lambda>(t, ws). (t, (ws, filter (\<lambda>w. \<forall>(gw, gp)\<in>set ([] @ [(''aab'', ''201'')]). get_label gw w = Inr gp) ws))) ?P"
    using conjunct2[OF b] unfolding ws h0 .
  have h: "True \<and> (\<forall>(t, (orig, pruned))\<in>set (words ?I). \<forall>w\<in>set pruned. length w = xlen ?I) \<and>
    (\<forall>(gw, gp)\<in>set (hints ?I @ [(''aab'', ''201'')]). length gw = xlen ?I)"
    by simp
  have c: "fst (exact_add_hints True [(''aab'', ''201'')] ?I) = None"
    by (rule mp[OF conjunct1[OF conjunct2[OF t]] h])
  have f: "fst (wordle_add_word_hint ''abx'' ''220'' ?T) = None"
    by (rule wordle_add_word_hint_total) simp_all
  then have d: "wordle_add_word_hint ''abx'' ''220'' ?T = (None, ?U)"
    by (simp add: prod_eq_iff)
  have e: "answer_words ?U = {w \<in> answer_words ?T. \<forall>i<length ''abx''.
         (''220'' ! i = CHR ''0'' \<longrightarrow> ''abx'' ! i \<notin> set w) \<and>
         (''220'' ! i = CHR ''1'' \<longrightarrow> ''abx'' ! i \<in> set w \<and> i < length w \<and> w ! i \<noteq> ''abx'' ! i) \<and>
         (''220'' ! i = CHR ''2'' \<longrightarrow> ''abx'' ! i \<in> set w \<and> i < length w \<and> w ! i = ''abx'' ! i)}"
    by (rule mp[OF conjunct2[OF conjunct2[OF t]] d])
  have "{w \<in> {''abc'', ''cab''}. \<forall>i<length ''abx''.
         (''220'' ! i = CHR ''0'' \<longrightarrow> ''abx'' ! i \<notin> set w) \<and>
         (''220'' ! i = CHR ''1'' \<longrightarrow> ''abx'' ! i \<in> set w \<and> i < length w \<and> w ! i \<noteq> ''abx'' ! i) \<and>
         (''220'' ! i = CHR ''2'' \<longrightarrow> ''abx'' ! i \<in> set w \<and> i < length w \<and> w ! i = ''abx'' ! i)}
     = {w \<in> {''abc'', ''cab''}. w = ''abc''}"
    by (rule Collect_cong) (auto simp: All_less_Suc)
  also have "\<dots> = {''abc''}" by auto
  finally have e': "answer_words ?U = {''abc''}"
    using e unfolding wordle_init_fields by simp
  show ?thesis
    by (intro conjI) (rule a, rule b', rule c, rule f, rule e')
qed

text \<open>
  The claim as it was stated fails in the heuristic session: \<open>abc\<close> is an answer word
  whose label against the guess \<open>aab\<close> is \<open>201\<close>, the call with this hint returns, and
  no answer word is left (the second \<open>a\<close> is labelled \<open>0\<close>, and the letter filter drops
  every word that holds an \<open>a\<close>).
\<close>

theorem heuristic_filter_is_not_the_label_filter:
  "''abc'' \<in> {''abc''} \<and> get_label ''aab'' ''abc'' = Inr ''201'' \<and>
   fst (wordle_add_word_hint ''aab'' ''201'' (wordle_init 3 {''abc''} {''abc''})) = None \<and>
   answer_words (snd (wordle_add_word_hint ''aab'' ''201'' (wordle_init 3 {''abc''} {''abc''}))) = {}"
proof (intro conjI)
  show "''abc'' \<in> {''abc''}" by simp
  show "get_label ''aab'' ''abc'' = Inr ''201''"
    by (simp add: label_eval)
  show "fst (wordle_add_word_hint ''aab'' ''201'' (wordle_init 3 {''abc''} {''abc''})) = None"
    by (simp add: wordle_eval)
  show "answer_words (snd (wordle_add_word_hint ''aab'' ''201'' (wordle_init 3 {''abc''} {''abc''}))) = {}"
    by (simp add: wordle_eval)
qed

text \<open>
  C2: for words \<open>w\<close> and \<open>a\<close> of equal length, \<open>get_label w a\<close> returns a label of that
  length which has \<open>2\<close> at position \<open>i\<close> exactly when \<open>w ! i = a ! i\<close>, and for every
  letter \<open>c\<close> the positions of \<open>w\<close> holding \<open>c\<close> that are labelled \<open>1\<close> or \<open>2\<close> are at
  most as many as the occurrences of \<open>c\<close> in \<open>a\<close>.
\<close>

theorem get_label_correct_and_bounded:
  assumes "length w = length a"
  shows "\<exists>p. get_label w a = Inr p \<and> length p = length w \<and>
           (\<forall>i<length w. (p ! i = CHR ''2'') = (w ! i = a ! i)) \<and>
           (\<forall>c. marks c w p \<le> count_list a c)"
  using get_label_ok[of w a] assms by auto

theorem get_label_correct_and_bounded_witness:
  "length ''allay'' = length ''rally'' \<and> get_label ''allay'' ''rally'' = Inr ''11202'' \<and>
   (\<forall>c. marks c ''allay'' ''11202'' \<le> count_list ''rally'' c)"
proof -
  have e: "get_label ''allay'' ''rally'' = Inr ''11202''"
    by (simp add: get_label_def Counter_def dict_get_def dict_dec_def)
  from get_label_correct_and_bounded[of "''allay''" "''rally''"] e
  show ?thesis by simp
qed

text \<open>
  C3: the label of a word against itself is \<open>2\<close> at every position.
\<close>

theorem get_label_same_word: "get_label a a = Inr (replicate (length a) CHR ''2'')"
  by (rule get_label_self)

theorem get_label_same_word_witness: "get_label ''rally'' ''rally'' = Inr ''22222''"
  using get_label_same_word[of "''rally''"] by (simp add: numeral_eq_Suc)

text \<open>
  C6: a sequence of \<open>add_word_hint\<close> calls, whether it ends normally or with an exception,
  leaves in every pool of the exact session the same name and original list and a pruned
  list that is a part of the one before and not longer; in the heuristic session the
  answer words afterwards are among those before, and not more. The sequence may start in
  any state, so no later call brings back a word that an earlier one has dropped.
\<close>

theorem candidates_never_grow:
  "list_all2 (\<lambda>(t, (orig, pruned)) (t', (orig', pruned')).
       t' = t \<and> orig' = orig \<and> set pruned' \<subseteq> set pruned \<and> length pruned' \<le> length pruned)
     (words s) (words (snd (exact_add_hints lg hs s))) \<and>
   answer_words (snd (wordle_add_hints hs' t)) \<subseteq> answer_words t \<and>
   (finite (answer_words t) \<longrightarrow> card (answer_words (snd (wordle_add_hints hs' t))) \<le> card (answer_words t))"
proof (intro conjI impI)
  obtain err s' where a: "exact_add_hints lg hs s = (err, s')" by (cases "exact_add_hints lg hs s")
  note f = exact_add_hints_frame[OF a]
  have "list_all2 (\<lambda>(t, (orig, pruned)) (t', (orig', pruned')).
       t' = t \<and> orig' = orig \<and> set pruned' \<subseteq> set pruned \<and> length pruned' \<le> length pruned)
     (words s) (words s')"
  proof (rule list_all2_all_nthI)
    show "length (words s) = length (words s')" using f by simp
  next
    fix i assume i: "i < length (words s)"
    have "fst (words s' ! i) = fst (words s ! i)"
      using f i by (metis nth_map)
    moreover have "fst (snd (words s' ! i)) = fst (snd (words s ! i))"
    proof -
      have l: "length (words s') = length (words s)" using f by blast
      have "map (fst \<circ> snd) (words s') = map (fst \<circ> snd) (words s)" using f by blast
      then have "map (fst \<circ> snd) (words s') ! i = map (fst \<circ> snd) (words s) ! i" by simp
      then show ?thesis using l i by (simp only: nth_map comp_def)
    qed
    moreover have "set (snd (snd (words s' ! i))) \<subseteq> set (snd (snd (words s ! i)))"
      "length (snd (snd (words s' ! i))) \<le> length (snd (snd (words s ! i)))"
      using f i by simp_all
    ultimately show "(case words s ! i of (t, (orig, pruned)) \<Rightarrow> \<lambda>(t', (orig', pruned')).
       t' = t \<and> orig' = orig \<and> set pruned' \<subseteq> set pruned \<and> length pruned' \<le> length pruned)
       (words s' ! i)"
      by (cases "words s ! i"; cases "words s' ! i") auto
  qed
  then show "list_all2 (\<lambda>(t, (orig, pruned)) (t', (orig', pruned')).
       t' = t \<and> orig' = orig \<and> set pruned' \<subseteq> set pruned \<and> length pruned' \<le> length pruned)
     (words s) (words (snd (exact_add_hints lg hs s)))"
    using a by simp
next
  obtain err t' where a: "wordle_add_hints hs' t = (err, t')" by (cases "wordle_add_hints hs' t")
  from wordle_add_hints_subset[OF a]
  show sub: "answer_words (snd (wordle_add_hints hs' t)) \<subseteq> answer_words t" using a by simp
  assume "finite (answer_words t)"
  then show "card (answer_words (snd (wordle_add_hints hs' t))) \<le> card (answer_words t)"
    using sub by (rule card_mono)
qed

theorem candidates_never_grow_witness:
  "words (snd (exact_add_hints True [(''aab'', ''201'')]
      \<lparr>xlen = 3, hints = [],
        words = [(''allowed'', ([''abc'', ''aab'', ''xyz''], [''abc'', ''aab'', ''xyz''])),
                 (''answers'', ([''abc'', ''cab''], [''abc'', ''cab'']))]\<rparr>)) =
     [(''allowed'', ([''abc'', ''aab'', ''xyz''], [''abc''])), (''answers'', ([''abc'', ''cab''], [''abc'']))] \<and>
   list_all2 (\<lambda>(t, (orig, pruned)) (t', (orig', pruned')).
       t' = t \<and> orig' = orig \<and> set pruned' \<subseteq> set pruned \<and> length pruned' \<le> length pruned)
     [(''allowed'', ([''abc'', ''aab'', ''xyz''], [''abc'', ''aab'', ''xyz''])),
      (''answers'', ([''abc'', ''cab''], [''abc'', ''cab'']))]
     [(''allowed'', ([''abc'', ''aab'', ''xyz''], [''abc''])), (''answers'', ([''abc'', ''cab''], [''abc'']))] \<and>
   answer_words (snd (wordle_add_hints [(''abx'', ''220'')] (wordle_init 3 {''abc'', ''cab''} {''abc'', ''cab''}))) =
     {''abc''} \<and>
   {''abc''} \<subseteq> {''abc'', ''cab''} \<and>
   card (answer_words (snd (wordle_add_hints [(''abx'', ''220'')] (wordle_init 3 {''abc'', ''cab''} {''abc'', ''cab''}))))
     \<le> card {''abc'', ''cab''}"
proof -
  let ?I = "\<lparr>xlen = 3, hints = [],
        words = [(''allowed'', ([''abc'', ''aab'', ''xyz''], [''abc'', ''aab'', ''xyz''])),
                 (''answers'', ([''abc'', ''cab''], [''abc'', ''cab'']))]\<rparr>"
  let ?T = "wordle_init 3 {''abc'', ''cab''} {''abc'', ''cab''}"
  note t = candidates_never_grow[where s = ?I and lg = True and hs = "[(''aab'', ''201'')]"
      and hs' = "[(''abx'', ''220'')]" and t = ?T]
  have a: "words (snd (exact_add_hints True [(''aab'', ''201'')] ?I)) =
     [(''allowed'', ([''abc'', ''aab'', ''xyz''], [''abc''])), (''answers'', ([''abc'', ''cab''], [''abc'']))]"
    by (simp add: example_exact_hint)
  have wi: "words ?I = [(''allowed'', ([''abc'', ''aab'', ''xyz''], [''abc'', ''aab'', ''xyz''])),
      (''answers'', ([''abc'', ''cab''], [''abc'', ''cab'']))]"
    by simp
  have l: "list_all2 (\<lambda>(t, (orig, pruned)) (t', (orig', pruned')).
       t' = t \<and> orig' = orig \<and> set pruned' \<subseteq> set pruned \<and> length pruned' \<le> length pruned)
     [(''allowed'', ([''abc'', ''aab'', ''xyz''], [''abc'', ''aab'', ''xyz''])),
      (''answers'', ([''abc'', ''cab''], [''abc'', ''cab'']))]
     [(''allowed'', ([''abc'', ''aab'', ''xyz''], [''abc''])), (''answers'', ([''abc'', ''cab''], [''abc'']))]"
    using conjunct1[OF t] unfolding a wi .
  have h: "snd (wordle_add_hints [(''abx'', ''220'')] ?T) = snd (wordle_add_word_hint ''abx'' ''220'' ?T)"
    using example_heuristic_hint(1) by (cases "wordle_add_word_hint ''abx'' ''220'' ?T") simp
  have w: "answer_words (snd (wordle_add_hints [(''abx'', ''220'')] ?T)) = {''abc''}"
    by (simp only: h example_heuristic_hint(2))
  have aw: "answer_words ?T = {''abc'', ''cab''}" by simp
  have s: "{''abc''} \<subseteq> {''abc'', ''cab''}"
    using conjunct1[OF conjunct2[OF t]] unfolding w aw .
  have f: "finite (answer_words ?T)" by simp
  have c: "card (answer_words (snd (wordle_add_hints [(''abx'', ''220'')] ?T))) \<le> card {''abc'', ''cab''}"
    using mp[OF conjunct2[OF conjunct2[OF t]] f] unfolding aw .
  show ?thesis
    by (intro conjI) (rule a, rule l, rule w, rule s, rule c)
qed

text \<open>
  C7: \<open>add_word_hint\<close> refuses a hint whose label has another length than its word, or
  holds a symbol other than \<open>0\<close>, \<open>1\<close>, \<open>2\<close>, before it changes anything. The heuristic
  session does so (lemma \<open>wordle_add_word_hint_atomic\<close>: the assertion fails and the state
  is the one before the call). The exact session does not check its hint: on the session
  that the constructor builds from the empty dictionary, and on a session with an answer
  pool, a label that is too short or holds \<open>x\<close> is recorded and the call returns, the
  answer pool losing all its words; a word longer than the answer words raises
  \<open>IndexError\<close> after the hint has been recorded.
\<close>

theorem exact_add_word_hint_takes_any_hint:
  "exact_init 5 [] = Inr \<lparr>xlen = 5, hints = [], words = []\<rparr> \<and>
   exact_add_word_hint False ''roate'' ''2222'' \<lparr>xlen = 5, hints = [], words = []\<rparr> =
     (None, \<lparr>xlen = 5, hints = [(''roate'', ''2222'')], words = []\<rparr>) \<and>
   exact_add_word_hint True ''roate'' ''2222''
       \<lparr>xlen = 5, hints = [], words = [(''answers'', ([''roate'', ''sound''], [''roate'', ''sound'']))]\<rparr> =
     (None, \<lparr>xlen = 5, hints = [(''roate'', ''2222'')],
              words = [(''answers'', ([''roate'', ''sound''], []))]\<rparr>) \<and>
   exact_add_word_hint True ''roate'' ''2x222''
       \<lparr>xlen = 5, hints = [], words = [(''answers'', ([''roate'', ''sound''], [''roate'', ''sound'']))]\<rparr> =
     (None, \<lparr>xlen = 5, hints = [(''roate'', ''2x222'')],
              words = [(''answers'', ([''roate'', ''sound''], []))]\<rparr>) \<and>
   exact_add_word_hint True ''roates'' ''22222''
       \<lparr>xlen = 5, hints = [], words = [(''answers'', ([''roate'', ''sound''], [''roate'', ''sound'']))]\<rparr> =
     (Some IndexError, \<lparr>xlen = 5, hints = [(''roates'', ''22222'')],
              words = [(''answers'', ([''roate'', ''sound''], [''roate'', ''sound'']))]\<rparr>) \<and>
   wordle_add_word_hint ''roate'' ''2222'' (wordle_init 5 {''roate'', ''sound''} {''roate'', ''sound''}) =
     (Some AssertionError, wordle_init 5 {''roate'', ''sound''} {''roate'', ''sound''}) \<and>
   wordle_add_word_hint ''roate'' ''2x222'' (wordle_init 5 {''roate'', ''sound''} {''roate'', ''sound''}) =
     (Some AssertionError, wordle_init 5 {''roate'', ''sound''} {''roate'', ''sound''})"
proof (intro conjI)
  show "exact_init 5 [] = Inr \<lparr>xlen = 5, hints = [], words = []\<rparr>"
    by (simp add: exact_init_def)
  show "exact_add_word_hint False ''roate'' ''2222'' \<lparr>xlen = 5, hints = [], words = []\<rparr> =
     (None, \<lparr>xlen = 5, hints = [(''roate'', ''2222'')], words = []\<rparr>)"
    by (simp add: exact_add_word_hint_def)
  show "exact_add_word_hint True ''roate'' ''2222''
       \<lparr>xlen = 5, hints = [], words = [(''answers'', ([''roate'', ''sound''], [''roate'', ''sound'']))]\<rparr> =
     (None, \<lparr>xlen = 5, hints = [(''roate'', ''2222'')],
              words = [(''answers'', ([''roate'', ''sound''], []))]\<rparr>)"
    by (simp add: exact_eval)
  show "exact_add_word_hint True ''roate'' ''2x222''
       \<lparr>xlen = 5, hints = [], words = [(''answers'', ([''roate'', ''sound''], [''roate'', ''sound'']))]\<rparr> =
     (None, \<lparr>xlen = 5, hints = [(''roate'', ''2x222'')],
              words = [(''answers'', ([''roate'', ''sound''], []))]\<rparr>)"
    by (simp add: exact_eval)
  show "exact_add_word_hint True ''roates'' ''22222''
       \<lparr>xlen = 5, hints = [], words = [(''answers'', ([''roate'', ''sound''], [''roate'', ''sound'']))]\<rparr> =
     (Some IndexError, \<lparr>xlen = 5, hints = [(''roates'', ''22222'')],
              words = [(''answers'', ([''roate'', ''sound''], [''roate'', ''sound'']))]\<rparr>)"
    by (simp add: exact_eval)
  show "wordle_add_word_hint ''roate'' ''2222'' (wordle_init 5 {''roate'', ''sound''} {''roate'', ''sound''}) =
     (Some AssertionError, wordle_init 5 {''roate'', ''sound''} {''roate'', ''sound''})"
    by (rule wordle_add_word_hint_atomic) simp
  show "wordle_add_word_hint ''roate'' ''2x222'' (wordle_init 5 {''roate'', ''sound''} {''roate'', ''sound''}) =
     (Some AssertionError, wordle_init 5 {''roate'', ''sound''} {''roate'', ''sound''})"
    by (rule wordle_add_word_hint_atomic) simp
qed

text \<open>
  C9: a second call of \<open>add_word_hint\<close> with the same hint, made right after the first,
  ends as the first did (it returns, or raises the same exception) and leaves the
  candidates as the first call left them: in the exact session the pruned list of every
  pool, in the heuristic session the answer words. This holds for every state and every
  hint. A hint of the session's length with labels among \<open>0\<close>, \<open>1\<close>, \<open>2\<close> makes the call
  return when the words of the session have that length (and, in the exact session,
  \<open>logger\<close> is bound).
\<close>

theorem add_hint_twice:
  "exact_add_word_hint lg word label (snd (exact_add_word_hint lg word label s)) =
     (fst (exact_add_word_hint lg word label s),
      (snd (exact_add_word_hint lg word label s))
        \<lparr>hints := hints (snd (exact_add_word_hint lg word label s)) @ [(word, label)]\<rparr>) \<and>
   words (snd (exact_add_word_hint lg word label (snd (exact_add_word_hint lg word label s)))) =
     words (snd (exact_add_word_hint lg word label s)) \<and>
   fst (wordle_add_word_hint word' label' (snd (wordle_add_word_hint word' label' t))) =
     fst (wordle_add_word_hint word' label' t) \<and>
   answer_words (snd (wordle_add_word_hint word' label' (snd (wordle_add_word_hint word' label' t)))) =
     answer_words (snd (wordle_add_word_hint word' label' t)) \<and>
   (lg \<and> (\<forall>(t, (orig, pruned))\<in>set (words s). \<forall>w\<in>set pruned. length w = xlen s) \<and>
    (\<forall>(gw, gp)\<in>set (hints s). length gw = xlen s) \<and>
    length word = xlen s \<and> length label = xlen s \<and> set label \<subseteq> {CHR ''0'', CHR ''1'', CHR ''2''} \<longrightarrow>
      fst (exact_add_word_hint lg word label s) = None) \<and>
   ((\<forall>w\<in>answer_words t. length w = wlen t) \<and>
    length word' = wlen t \<and> length label' = wlen t \<and> set label' \<subseteq> {CHR ''0'', CHR ''1'', CHR ''2''} \<longrightarrow>
      fst (wordle_add_word_hint word' label' t) = None)"
proof (intro conjI impI)
  obtain err s1 where a: "exact_add_word_hint lg word label s = (err, s1)"
    by (cases "exact_add_word_hint lg word label s")
  note b = exact_add_word_hint_again[OF a]
  show "exact_add_word_hint lg word label (snd (exact_add_word_hint lg word label s)) =
     (fst (exact_add_word_hint lg word label s),
      (snd (exact_add_word_hint lg word label s))
        \<lparr>hints := hints (snd (exact_add_word_hint lg word label s)) @ [(word, label)]\<rparr>)"
    using b by (simp add: a)
  show "words (snd (exact_add_word_hint lg word label (snd (exact_add_word_hint lg word label s)))) =
     words (snd (exact_add_word_hint lg word label s))"
    using b by (simp add: a)
next
  obtain e t1 where a: "wordle_add_word_hint word' label' t = (e, t1)"
    by (cases "wordle_add_word_hint word' label' t")
  from wordle_add_word_hint_again[OF a]
  obtain t2 where b: "wordle_add_word_hint word' label' t1 = (e, t2)"
    and c: "answer_words t2 = answer_words t1" by blast
  show "fst (wordle_add_word_hint word' label' (snd (wordle_add_word_hint word' label' t))) =
     fst (wordle_add_word_hint word' label' t)"
    by (simp add: a b)
  show "answer_words (snd (wordle_add_word_hint word' label' (snd (wordle_add_word_hint word' label' t)))) =
     answer_words (snd (wordle_add_word_hint word' label' t))"
    by (simp add: a b c)
next
  assume a: "lg \<and> (\<forall>(t, (orig, pruned))\<in>set (words s). \<forall>w\<in>set pruned. length w = xlen s) \<and>
    (\<forall>(gw, gp)\<in>set (hints s). length gw = xlen s) \<and>
    length word = xlen s \<and> length label = xlen s \<and> set label \<subseteq> {CHR ''0'', CHR ''1'', CHR ''2''}"
  have p1: "\<forall>(t, (orig, pruned))\<in>set (words s). \<forall>w\<in>set pruned. xlen s \<le> length w"
    using a by fastforce
  have p2: "\<forall>(gw, gp)\<in>set (hints s). length gw \<le> xlen s" using a by fastforce
  have p3: "length word \<le> xlen s" using a by simp
  have p4: lg using a by blast
  show "fst (exact_add_word_hint lg word label s) = None"
    by (rule exact_add_word_hint_total[OF p1 p2 p3 p4])
next
  assume a: "(\<forall>w\<in>answer_words t. length w = wlen t) \<and>
    length word' = wlen t \<and> length label' = wlen t \<and> set label' \<subseteq> {CHR ''0'', CHR ''1'', CHR ''2''}"
  show "fst (wordle_add_word_hint word' label' t) = None"
    by (rule wordle_add_word_hint_total) (use a in simp_all)
qed

theorem add_hint_twice_witness:
  "exact_add_word_hint True ''aab'' ''201''
     \<lparr>xlen = 3, hints = [],
       words = [(''allowed'', ([''abc'', ''aab'', ''xyz''], [''abc'', ''aab'', ''xyz''])),
                (''answers'', ([''abc'', ''cab''], [''abc'', ''cab'']))]\<rparr> =
   (None, \<lparr>xlen = 3, hints = [(''aab'', ''201'')],
       words = [(''allowed'', ([''abc'', ''aab'', ''xyz''], [''abc''])),
                (''answers'', ([''abc'', ''cab''], [''abc'']))]\<rparr>) \<and>
   exact_add_word_hint True ''aab'' ''201''
     \<lparr>xlen = 3, hints = [(''aab'', ''201'')],
       words = [(''allowed'', ([''abc'', ''aab'', ''xyz''], [''abc''])),
                (''answers'', ([''abc'', ''cab''], [''abc'']))]\<rparr> =
   (None, \<lparr>xlen = 3, hints = [(''aab'', ''201''), (''aab'', ''201'')],
       words = [(''allowed'', ([''abc'', ''aab'', ''xyz''], [''abc''])),
                (''answers'', ([''abc'', ''cab''], [''abc'']))]\<rparr>) \<and>
   answer_words (snd (wordle_add_word_hint ''abx'' ''220'' (wordle_init 3 {''abc'', ''cab''} {''abc'', ''cab''}))) =
     {''abc''} \<and>
   fst (wordle_add_word_hint ''abx'' ''220''
     (snd (wordle_add_word_hint ''abx'' ''220'' (wordle_init 3 {''abc'', ''cab''} {''abc'', ''cab''})))) = None \<and>
   answer_words (snd (wordle_add_word_hint ''abx'' ''220''
     (snd (wordle_add_word_hint ''abx'' ''220'' (wordle_init 3 {''abc'', ''cab''} {''abc'', ''cab''}))))) =
     {''abc''} \<and>
   fst (exact_add_word_hint True ''aab'' ''201''
     \<lparr>xlen = 3, hints = [],
       words = [(''allowed'', ([''abc'', ''aab'', ''xyz''], [''abc'', ''aab'', ''xyz''])),
                (''answers'', ([''abc'', ''cab''], [''abc'', ''cab'']))]\<rparr>) = None \<and>
   fst (wordle_add_word_hint ''abx'' ''220'' (wordle_init 3 {''abc'', ''cab''} {''abc'', ''cab''})) = None"
proof -
  let ?I = "\<lparr>xlen = 3, hints = [],
       words = [(''allowed'', ([''abc'', ''aab'', ''xyz''], [''abc'', ''aab'', ''xyz''])),
                (''answers'', ([''abc'', ''cab''], [''abc'', ''cab'']))]\<rparr>"
  let ?S = "\<lparr>xlen = 3, hints = [(''aab'', ''201'')],
       words = [(''allowed'', ([''abc'', ''aab'', ''xyz''], [''abc''])),
                (''answers'', ([''abc'', ''cab''], [''abc'']))]\<rparr>"
  let ?T = "wordle_init 3 {''abc'', ''cab''} {''abc'', ''cab''}"
  note t = add_hint_twice[where lg = True and word = "''aab''" and label = "''201''" and s = ?I
      and word' = "''abx''" and label' = "''220''" and t = ?T]
  have a: "exact_add_word_hint True ''aab'' ''201'' ?I = (None, ?S)"
    by (rule example_exact_hint)
  have f: "fst (exact_add_word_hint True ''aab'' ''201'' ?I) = None"
    and s: "snd (exact_add_word_hint True ''aab'' ''201'' ?I) = ?S"
    by (simp_all only: a fst_conv snd_conv)
  have b: "exact_add_word_hint True ''aab'' ''201'' ?S =
     (None, ?S\<lparr>hints := hints ?S @ [(''aab'', ''201'')]\<rparr>)"
    using conjunct1[OF t] unfolding f s .
  have u: "?S\<lparr>hints := hints ?S @ [(''aab'', ''201'')]\<rparr> =
     \<lparr>xlen = 3, hints = [(''aab'', ''201''), (''aab'', ''201'')],
       words = [(''allowed'', ([''abc'', ''aab'', ''xyz''], [''abc''])),
                (''answers'', ([''abc'', ''cab''], [''abc'']))]\<rparr>"
    by simp
  have b': "exact_add_word_hint True ''aab'' ''201'' ?S =
     (None, \<lparr>xlen = 3, hints = [(''aab'', ''201''), (''aab'', ''201'')],
       words = [(''allowed'', ([''abc'', ''aab'', ''xyz''], [''abc''])),
                (''answers'', ([''abc'', ''cab''], [''abc'']))]\<rparr>)"
    using b unfolding u .
  have c: "fst (wordle_add_word_hint ''abx'' ''220'' (snd (wordle_add_word_hint ''abx'' ''220'' ?T))) = None"
    using conjunct1[OF conjunct2[OF conjunct2[OF t]]] unfolding example_heuristic_hint(1) .
  have d: "answer_words (snd (wordle_add_word_hint ''abx'' ''220''
       (snd (wordle_add_word_hint ''abx'' ''220'' ?T)))) = {''abc''}"
    using conjunct1[OF conjunct2[OF conjunct2[OF conjunct2[OF t]]]] unfolding example_heuristic_hint(2) .
  have v: "True \<and> (\<forall>(t, (orig, pruned))\<in>set (words ?I). \<forall>w\<in>set pruned. length w = xlen ?I) \<and>
    (\<forall>(gw, gp)\<in>set (hints ?I). length gw = xlen ?I) \<and>
    length ''aab'' = xlen ?I \<and> length ''201'' = xlen ?I \<and> set ''201'' \<subseteq> {CHR ''0'', CHR ''1'', CHR ''2''}"
    by simp
  have e: "fst (exact_add_word_hint True ''aab'' ''201'' ?I) = None"
    by (rule mp[OF conjunct1[OF conjunct2[OF conjunct2[OF conjunct2[OF conjunct2[OF t]]]]] v])
  have w: "(\<forall>w\<in>answer_words ?T. length w = wlen ?T) \<and>
    length ''abx'' = wlen ?T \<and> length ''220'' = wlen ?T \<and> set ''220'' \<subseteq> {CHR ''0'', CHR ''1'', CHR ''2''}"
    by simp
  have g: "fst (wordle_add_word_hint ''abx'' ''220'' ?T) = None"
    by (rule mp[OF conjunct2[OF conjunct2[OF conjunct2[OF conjunct2[OF conjunct2[OF t]]]]] w])
  show ?thesis
    by (intro conjI) (rule a, rule b', rule example_heuristic_hint(2), rule c, rule d, rule e, rule g)
qed

end
